theory Spec2Isabelle
  imports Main
begin

section \<open>The phonetic suggestion engine of background.ts\<close>

text \<open>
  The development embeds \<^verbatim>\<open>src/background.ts\<close>: the class \<^verbatim>\<open>PhoneticSearcher\<close>
  (one IndexedDB database per phonetic algorithm, built once from a word list) and the
  function \<^verbatim>\<open>getAllSuggestions\<close> that combines the answers of the active searchers.

  What the file imports or inherits from the browser is a parameter of the model:
  the phonetic encoders of talisman, \<^verbatim>\<open>levenshtein.get\<close>, \<^verbatim>\<open>String.prototype.toLowerCase\<close>
  and \<^verbatim>\<open>trim\<close>, the outcome of \<^verbatim>\<open>fetch\<close> and the failures of IndexedDB requests.
\<close>

subsection \<open>Errors, encoder results, configuration\<close>

text \<open>The values thrown in background.ts, and the rejections of the browser interfaces.\<close>

datatype error =
    DBNotOpen             \<comment> \<open>\<^verbatim>\<open>new Error("DB not open")\<close>\<close>
  | NoURL                 \<comment> \<open>\<^verbatim>\<open>new Error("No URL")\<close>\<close>
  | FetchFailed nat       \<comment> \<open>\<^verbatim>\<open>new Error(`Fetch failed: ${response.status}`)\<close>\<close>
  | InvalidJSON           \<comment> \<open>\<^verbatim>\<open>new Error("Invalid JSON")\<close>\<close>
  | NetworkError          \<comment> \<open>\<^verbatim>\<open>fetch\<close> rejects\<close>
  | JSONSyntaxError       \<comment> \<open>\<^verbatim>\<open>response.json()\<close> rejects\<close>
  | RequestError          \<comment> \<open>an IndexedDB request fires \<^verbatim>\<open>onerror\<close>\<close>

text \<open>
  An encoder is declared \<^verbatim>\<open>(text: string) => string\<close>, yet the code tests
  \<^verbatim>\<open>typeof key === 'string'\<close> and wraps the call in \<^verbatim>\<open>try\<close>: the three outcomes
  it distinguishes are a string, a value that is not a string, and an exception.
\<close>

datatype encoded = Code string | NotAString | Throws

datatype TalismanPhoneticAlgorithm = phonex | soundex2 | fonem | sonnex | soundex | metaphone

definition ACTIVE_TALISMAN_ALGORITHMS :: "TalismanPhoneticAlgorithm list" where
  "ACTIVE_TALISMAN_ALGORITHMS = [phonex, soundex2, metaphone]"

definition FINAL_SUGGESTION_LIMIT :: int where
  "FINAL_SUGGESTION_LIMIT = 7"

definition SUGGESTIONS_PER_METHOD :: int where
  "SUGGESTIONS_PER_METHOD = 5"

definition batchSize :: nat where
  "batchSize = 5000"

text \<open>
  The platform: the JavaScript built-ins and imported functions the code calls, and the
  failures of \<^verbatim>\<open>store.get\<close> at query time (per database, per key).
\<close>

record platform =
  toLowerCase :: "string \<Rightarrow> string"
  trim :: "string \<Rightarrow> string"
  levenshtein :: "string \<Rightarrow> string \<Rightarrow> nat"
  algorithmMap :: "TalismanPhoneticAlgorithm \<Rightarrow> string \<Rightarrow> encoded"
  getFails :: "TalismanPhoneticAlgorithm \<Rightarrow> string \<Rightarrow> bool"

subsection \<open>JavaScript containers\<close>

text \<open>
  A \<^verbatim>\<open>Set<string>\<close> iterates in insertion order: it is a list without duplicates,
  \<^verbatim>\<open>add\<close> appends a value that is not yet a member.
\<close>

definition set_add :: "'a \<Rightarrow> 'a list \<Rightarrow> 'a list" where
  "set_add x xs = (if x \<in> set xs then xs else xs @ [x])"

text \<open>\<^verbatim>\<open>Array.from(new Set(xs))\<close>: the first occurrence of every value, in order.\<close>

definition from_set :: "'a list \<Rightarrow> 'a list" where
  "from_set xs = foldl (\<lambda>acc x. set_add x acc) [] xs"

text \<open>
  \<^verbatim>\<open>xs.slice(0, end)\<close> for an integer \<^verbatim>\<open>end\<close>: a negative end counts from the end of
  the array, and the bounds are clamped to the array.
\<close>

definition slice0 :: "int \<Rightarrow> 'a list \<Rightarrow> 'a list" where
  "slice0 e xs =
     (let len = int (length xs);
          k = (if e < 0 then max (len + e) 0 else min e len)
      in take (nat k) xs)"

text \<open>
  \<^verbatim>\<open>ws.map(w => ({word: w, distance: d(w)})).sort((a, b) => a.distance - b.distance)
  .map(item => item.word)\<close>: \<^verbatim>\<open>Array.prototype.sort\<close> is stable, and the stable sort by
  a key is \<^const>\<open>sort_key\<close>.
\<close>

definition sortByDistance :: "(string \<Rightarrow> nat) \<Rightarrow> string list \<Rightarrow> string list" where
  "sortByDistance d ws =
     (let wordsWithDistance = map (\<lambda>word. (word, d word)) ws;
          sortedPairs = sort_key snd wordsWithDistance
      in map fst sortedPairs)"

subsection \<open>The IndexedDB database of one searcher\<close>

text \<open>
  The object store \<^verbatim>\<open>phoneticMapStore\<close> holds records \<^verbatim>\<open>{phoneticKey, words}\<close> under the
  key path \<^verbatim>\<open>phoneticKey\<close>; the init store holds \<^verbatim>\<open>{key: initializedKey, value: true}\<close>
  once \<^verbatim>\<open>markAsInitialized\<close> has run. \<^verbatim>\<open>openDatabase\<close> creates both stores at version 1,
  so they exist in every database the searcher has opened.
\<close>

type_synonym store = "string \<rightharpoonup> string list"

record database =
  phoneticMapStore :: store
  initialized :: bool

definition empty_database :: database where
  "empty_database = \<lparr>phoneticMapStore = Map.empty, initialized = False\<rparr>"

text \<open>\<^verbatim>\<open>request.result?.words || []\<close>\<close>

definition words_of :: "store \<Rightarrow> string \<Rightarrow> string list" where
  "words_of st k = (case st k of None \<Rightarrow> [] | Some ws \<Rightarrow> ws)"

text \<open>
  The body of \<^verbatim>\<open>gr.onsuccess\<close> in \<^verbatim>\<open>writeBatch\<close>, for one entry \<^verbatim>\<open>[k, ws]\<close> of the batch
  with \<^verbatim>\<open>wta = Array.from(ws)\<close>: an existing record is \<^verbatim>\<open>put\<close> back with
  \<^verbatim>\<open>Array.from(new Set([...er.words, ...wta]))\<close>, a missing one is \<^verbatim>\<open>add\<close>ed with \<^verbatim>\<open>wta\<close>.
\<close>

definition mergeWords :: "store \<Rightarrow> string \<Rightarrow> string list \<Rightarrow> store" where
  "mergeWords st k wta =
     (case st k of
        Some er \<Rightarrow> st(k \<mapsto> from_set (er @ wta))
      | None \<Rightarrow> st(k \<mapsto> wta))"

text \<open>
  The batch is a \<^verbatim>\<open>Map<string, Set<string>>\<close>, iterated in insertion order.
  \<^verbatim>\<open>if (!batch.has(key)) {batch.set(key, new Set());} batch.get(key)!.add(tw)\<close>:
\<close>

type_synonym batch = "(string \<times> string list) list"

fun batch_add :: "string \<Rightarrow> string \<Rightarrow> batch \<Rightarrow> batch" where
  "batch_add key tw [] = [(key, [tw])]"
| "batch_add key tw ((k, ws) # b) =
     (if k = key then (k, set_add tw ws) # b else (k, ws) # batch_add key tw b)"

text \<open>
  \<^verbatim>\<open>writeBatch\<close>: one transaction on the store, and in it one request pair (\<^verbatim>\<open>get\<close>,
  then \<^verbatim>\<open>put\<close> or \<^verbatim>\<open>add\<close>) per entry of the batch. \<open>fails k\<close> says that a request of the
  pair for key \<open>k\<close> fails in this flush. The handlers \<^verbatim>\<open>gr.onerror\<close> and \<^verbatim>\<open>pr.onerror\<close>
  reject the promise of the entry and do not call \<^verbatim>\<open>preventDefault\<close>, so a failed request
  aborts the transaction and none of the writes of the flush is kept; \<^verbatim>\<open>Promise.all\<close>
  rejects, and the \<^verbatim>\<open>catch\<close> around it logs the error and returns normally. When no
  request fails every entry is merged into its bucket. \<^verbatim>\<open>this.db\<close> is non-null during the
  build, so of the guard \<^verbatim>\<open>!this.db || b.size === 0\<close> the size test remains;
  \<^verbatim>\<open>db.transaction\<close> itself throwing is left out (the code never closes the connection).
\<close>

fun writeEntries :: "batch \<Rightarrow> store \<Rightarrow> store" where
  "writeEntries [] st = st"
| "writeEntries ((k, ws) # b) st = writeEntries b (mergeWords st k ws)"

definition writeBatch :: "(string \<Rightarrow> bool) \<Rightarrow> batch \<Rightarrow> store \<Rightarrow> store" where
  "writeBatch fails b st =
     (if b = [] then st
      else if list_ex (\<lambda>e. fails (fst e)) b then st
      else writeEntries b st)"

text \<open>
  The body of the loop \<^verbatim>\<open>for (const word of wordsArray)\<close>. The state of the loop is
  the batch, the store and the number of flushes so far; \<open>wfail n k\<close> says that the
  write of key \<open>k\<close> fails in flush number \<open>n\<close>. The size test and the flush are in
  the branch of a non-empty key only; an exception of the encoder is caught and the word
  skipped; a key that is not a string is skipped silently.
\<close>

definition loopBody ::
  "platform \<Rightarrow> (string \<Rightarrow> encoded) \<Rightarrow> nat \<Rightarrow> (nat \<Rightarrow> string \<Rightarrow> bool)
     \<Rightarrow> batch \<times> store \<times> nat \<Rightarrow> string \<Rightarrow> batch \<times> store \<times> nat" where
  "loopBody P enc bs wfail acc word =
     (case acc of (b, st, n) \<Rightarrow>
        (let tw = trim P word in
         if tw = [] then (b, st, n)
         else
           (case enc (toLowerCase P tw) of
              Throws \<Rightarrow> (b, st, n)
            | NotAString \<Rightarrow> (b, st, n)
            | Code key \<Rightarrow>
                if key \<noteq> [] then
                  (let b' = batch_add key tw b in
                   if length b' \<ge> bs then ([], writeBatch (wfail n) b' st, Suc n)
                   else (b', st, n))
                else (batch_add key tw b, st, n))))"

definition buildLoop ::
  "platform \<Rightarrow> (string \<Rightarrow> encoded) \<Rightarrow> nat \<Rightarrow> (nat \<Rightarrow> string \<Rightarrow> bool) \<Rightarrow> string list
     \<Rightarrow> batch \<times> store \<times> nat \<Rightarrow> batch \<times> store \<times> nat" where
  "buildLoop P enc bs wfail wordsArray acc = foldl (loopBody P enc bs wfail) acc wordsArray"

text \<open>After the loop: \<^verbatim>\<open>if (batch.size > 0) {await writeBatch(batch);}\<close>\<close>

definition finalFlush :: "(nat \<Rightarrow> string \<Rightarrow> bool) \<Rightarrow> batch \<times> store \<times> nat \<Rightarrow> store" where
  "finalFlush wfail acc =
     (case acc of (b, st, n) \<Rightarrow> if length b > 0 then writeBatch (wfail n) b st else st)"

text \<open>What \<^verbatim>\<open>fetch(this.wordListUrl)\<close> and \<^verbatim>\<open>response.json()\<close> deliver.\<close>

datatype json_body = JsonRejects | JsonNotArray | JsonArray "string list"

datatype fetch_result = FetchRejects | Response bool nat json_body

text \<open>
  The first \<^verbatim>\<open>try\<close> of \<^verbatim>\<open>buildAndStorePhoneticIndex\<close>; its \<^verbatim>\<open>catch\<close> logs and rethrows.
  \<^verbatim>\<open>wordsArray\<close> is declared \<^verbatim>\<open>string[]\<close> and only \<^verbatim>\<open>Array.isArray\<close> is checked: the
  model takes the elements of an array as strings.
\<close>

fun loadWords :: "fetch_result \<Rightarrow> error + string list" where
  "loadWords FetchRejects = Inl NetworkError"
| "loadWords (Response ok status body) =
     (if \<not> ok then Inl (FetchFailed status)
      else case body of
             JsonRejects \<Rightarrow> Inl JSONSyntaxError
           | JsonNotArray \<Rightarrow> Inl InvalidJSON
           | JsonArray wordsArray \<Rightarrow> Inr wordsArray)"

text \<open>The store after each iteration of the loop, in order.\<close>

fun loopStores ::
  "platform \<Rightarrow> (string \<Rightarrow> encoded) \<Rightarrow> nat \<Rightarrow> (nat \<Rightarrow> string \<Rightarrow> bool) \<Rightarrow> string list
     \<Rightarrow> batch \<times> store \<times> nat \<Rightarrow> store list" where
  "loopStores P enc bs wfail [] acc = []"
| "loopStores P enc bs wfail (word # rest) acc =
     (let acc' = loopBody P enc bs wfail acc word
      in fst (snd acc') # loopStores P enc bs wfail rest acc')"

text \<open>
  \<^verbatim>\<open>buildAndStorePhoneticIndex\<close>, with the local constant \<^verbatim>\<open>batchSize\<close> as the argument
  \<open>bs\<close>. \<open>dbOpen\<close> is \<^verbatim>\<open>this.db\<close> being non-null; \<^verbatim>\<open>this.wordListUrl\<close> is the constant
  \<^verbatim>\<open>'frenchwords.json'\<close>, so \<^verbatim>\<open>"No URL"\<close> is never thrown. A thrown error leaves the
  store as it was: nothing is written before the word list has been read. A build that
  returns gives the stores the database went through, in order: the store after each
  word of the loop, then the store after the final flush, which is the one it leaves.
\<close>

definition buildIndexStores ::
  "platform \<Rightarrow> (string \<Rightarrow> encoded) \<Rightarrow> nat \<Rightarrow> fetch_result \<Rightarrow> (nat \<Rightarrow> string \<Rightarrow> bool)
     \<Rightarrow> bool \<Rightarrow> store \<Rightarrow> error + store list" where
  "buildIndexStores P enc bs outcome wfail dbOpen st =
     (if \<not> dbOpen then Inl DBNotOpen
      else case loadWords outcome of
             Inl e \<Rightarrow> Inl e
           | Inr wordsArray \<Rightarrow>
               Inr (loopStores P enc bs wfail wordsArray ([], st, 0)
                    @ [finalFlush wfail (buildLoop P enc bs wfail wordsArray ([], st, 0))]))"

definition buildIndex ::
  "platform \<Rightarrow> (string \<Rightarrow> encoded) \<Rightarrow> nat \<Rightarrow> fetch_result \<Rightarrow> (nat \<Rightarrow> string \<Rightarrow> bool)
     \<Rightarrow> bool \<Rightarrow> store \<Rightarrow> error + store" where
  "buildIndex P enc bs outcome wfail dbOpen st =
     (case buildIndexStores P enc bs outcome wfail dbOpen st of
        Inl e \<Rightarrow> Inl e
      | Inr stores \<Rightarrow> Inr (last stores))"

definition buildAndStorePhoneticIndex ::
  "platform \<Rightarrow> (string \<Rightarrow> encoded) \<Rightarrow> fetch_result \<Rightarrow> (nat \<Rightarrow> string \<Rightarrow> bool)
     \<Rightarrow> bool \<Rightarrow> store \<Rightarrow> error + store" where
  "buildAndStorePhoneticIndex P enc = buildIndex P enc batchSize"

subsection \<open>The searcher\<close>

text \<open>
  A \<^verbatim>\<open>Promise<void>\<close> is pending, resolved, or rejected with an error. The promises that
  \<^verbatim>\<open>async\<close> wrappers derive from \<^verbatim>\<open>initializationPromise\<close> settle as it does and are
  identified with it.
\<close>

datatype promise = Pending | Resolved | Rejected error

text \<open>The lines \<^verbatim>\<open>_doInitialize\<close> writes to the console.\<close>

datatype log_entry =
    LogStarting                  \<comment> \<open>\<^verbatim>\<open>Starting initialization...\<close>\<close>
  | LogBuilding                  \<comment> \<open>\<^verbatim>\<open>Building index...\<close>\<close>
  | LogAlreadyInitialized        \<comment> \<open>\<^verbatim>\<open>Already initialized.\<close>\<close>
  | LogComplete                  \<comment> \<open>\<^verbatim>\<open>Initialization complete.\<close>\<close>
  | LogCriticalInitError error   \<comment> \<open>\<^verbatim>\<open>CRITICAL Init Error:\<close>\<close>

text \<open>
  The fields of \<^verbatim>\<open>PhoneticSearcher\<close>. \<open>db\<close> is \<^verbatim>\<open>this.db\<close> being non-null; \<open>idb\<close> is
  the content of the IndexedDB database \<^verbatim>\<open>dbName\<close>, which outlives the process;
  \<^verbatim>\<open>activeAlgorithm\<close> is \<^verbatim>\<open>algorithmMap[algorithmType]\<close>. \<open>journal\<close> is not a field of the
  class: it records the content of the database after each write this process has made,
  in order, so that the database a process leaves behind when it stops at some moment is
  the one it started on or an entry of the journal.
\<close>

record searcher =
  db :: bool
  isInitializing :: bool
  initializationPromise :: "promise option"
  isReady :: bool
  algorithmType :: TalismanPhoneticAlgorithm
  idb :: database
  console :: "log_entry list"
  journal :: "database list"

text \<open>A write: the database becomes \<open>d\<close>, and the journal records it.\<close>

definition written :: "database \<Rightarrow> searcher \<Rightarrow> searcher" where
  "written d s = s\<lparr>idb := d, journal := journal s @ [d]\<rparr>"

definition activeAlgorithm :: "platform \<Rightarrow> searcher \<Rightarrow> string \<Rightarrow> encoded" where
  "activeAlgorithm P s = algorithmMap P (algorithmType s)"

text \<open>
  What the browser does during one run of \<^verbatim>\<open>_doInitialize\<close>: whether the request of
  \<^verbatim>\<open>openDatabase\<close>, \<^verbatim>\<open>checkIfInitialized\<close> or \<^verbatim>\<open>markAsInitialized\<close> fires \<^verbatim>\<open>onerror\<close>,
  what \<^verbatim>\<open>fetch\<close> delivers, and which bucket writes fail in which flush.
\<close>

record init_env =
  openFails :: bool
  checkFails :: bool
  fetched :: fetch_result
  writeFails :: "nat \<Rightarrow> string \<Rightarrow> bool"
  markFails :: bool

definition openDatabase :: "init_env \<Rightarrow> error + bool" where
  "openDatabase env = (if openFails env then Inl RequestError else Inr True)"

definition checkIfInitialized :: "init_env \<Rightarrow> searcher \<Rightarrow> error + bool" where
  "checkIfInitialized env s =
     (if \<not> db s then Inl DBNotOpen
      else if checkFails env then Inl RequestError
      else Inr (initialized (idb s)))"

definition markAsInitialized :: "init_env \<Rightarrow> searcher \<Rightarrow> error + database" where
  "markAsInitialized env s =
     (if \<not> db s then Inl DBNotOpen
      else if markFails env then Inl RequestError
      else Inr ((idb s)\<lparr>initialized := True\<rparr>))"

text \<open>
  The \<^verbatim>\<open>try\<close> block of \<^verbatim>\<open>_doInitialize\<close>: the error thrown, if any, and the searcher as
  the block leaves it (what was written before a throw stays written). The build writes
  the stores it goes through to the database as it is at that moment; then
  \<^verbatim>\<open>markAsInitialized\<close> writes the flag.
\<close>

definition tryInitialize :: "platform \<Rightarrow> init_env \<Rightarrow> searcher \<Rightarrow> error option \<times> searcher" where
  "tryInitialize P env s0 =
     (case openDatabase env of
        Inl e \<Rightarrow> (Some e, s0)
      | Inr h \<Rightarrow>
          (let s1 = s0\<lparr>db := h\<rparr> in
           case checkIfInitialized env s1 of
             Inl e \<Rightarrow> (Some e, s1)
           | Inr isInitialized \<Rightarrow>
               if \<not> isInitialized then
                 (let s2 = s1\<lparr>console := console s1 @ [LogBuilding]\<rparr> in
                  case buildIndexStores P (activeAlgorithm P s2) batchSize (fetched env)
                         (writeFails env) (db s2) (phoneticMapStore (idb s2)) of
                    Inl e \<Rightarrow> (Some e, s2)
                  | Inr stores \<Rightarrow>
                      (let s3 = foldl (\<lambda>s st. written ((idb s)\<lparr>phoneticMapStore := st\<rparr>) s)
                                  s2 stores in
                       case markAsInitialized env s3 of
                         Inl e \<Rightarrow> (Some e, s3)
                       | Inr d \<Rightarrow>
                           (None, (written d s3)\<lparr>isReady := True,
                                     console := console s3 @ [LogComplete]\<rparr>)))
               else
                 (None, s1\<lparr>isReady := True,
                           console := console s1 @ [LogAlreadyInitialized, LogComplete]\<rparr>)))"

text \<open>
  \<^verbatim>\<open>_doInitialize\<close> after its first \<^verbatim>\<open>await\<close>: the \<^verbatim>\<open>try\<close> block, then \<^verbatim>\<open>catch\<close> (log,
  \<^verbatim>\<open>db = null\<close>, \<^verbatim>\<open>isReady = false\<close>, rethrow) and \<^verbatim>\<open>finally\<close>; the promise of the run
  settles with the outcome.
\<close>

definition doInitialize_async :: "platform \<Rightarrow> init_env \<Rightarrow> searcher \<Rightarrow> searcher" where
  "doInitialize_async P env s =
     (case tryInitialize P env s of
        (None, s') \<Rightarrow> s'\<lparr>isInitializing := False, initializationPromise := Some Resolved\<rparr>
      | (Some e, s') \<Rightarrow>
          s'\<lparr>console := console s' @ [LogCriticalInitError e], db := False, isReady := False,
             isInitializing := False, initializationPromise := Some (Rejected e)\<rparr>)"

text \<open>
  \<^verbatim>\<open>initialize()\<close> up to the point where it returns the stored promise. When no promise
  is stored it calls \<^verbatim>\<open>_doInitialize\<close>, which runs to its first \<^verbatim>\<open>await\<close>: it returns
  at once when \<^verbatim>\<open>isInitializing || isReady\<close>, else sets \<^verbatim>\<open>isInitializing\<close> and is in
  flight. The value \<^verbatim>\<open>initialize()\<close> returns is \<open>initializationPromise\<close> of the result.
\<close>

definition initialize :: "searcher \<Rightarrow> searcher" where
  "initialize s =
     (if initializationPromise s = None then
        (if isInitializing s \<or> isReady s then s\<lparr>initializationPromise := Some Resolved\<rparr>
         else s\<lparr>isInitializing := True, console := console s @ [LogStarting],
                initializationPromise := Some Pending\<rparr>)
      else s)"

text \<open>
  The constructor, on the database \<open>d\<close> found under \<^verbatim>\<open>dbName\<close>: field initialisers, then
  \<^verbatim>\<open>this.initializationPromise = this.initialize()\<close>. The \<^verbatim>\<open>catch\<close> it attaches only logs.
  \<^verbatim>\<open>algorithmMap\<close> has an entry for each of the six algorithms, so the constructor does
  not throw.
\<close>

definition new_PhoneticSearcher :: "TalismanPhoneticAlgorithm \<Rightarrow> database \<Rightarrow> searcher" where
  "new_PhoneticSearcher algorithm d =
     initialize \<lparr>db = False, isInitializing = False, initializationPromise = None,
                 isReady = False, algorithmType = algorithm, idb = d, console = [],
                 journal = []\<rparr>"

text \<open>
  What happens to a searcher: somebody calls \<^verbatim>\<open>initialize()\<close>, or the run in flight
  completes (the browser having answered as \<open>env\<close> says). A call of \<^verbatim>\<open>initialize()\<close>
  between two \<^verbatim>\<open>await\<close>s of the run reads and writes \<^verbatim>\<open>initializationPromise\<close> only, so
  the run is one step here.
\<close>

datatype event = CallInitialize | Settle init_env

fun step :: "platform \<Rightarrow> searcher \<Rightarrow> event \<Rightarrow> searcher" where
  "step P s CallInitialize = initialize s"
| "step P s (Settle env) =
     (if initializationPromise s = Some Pending then doInitialize_async P env s else s)"

definition run :: "platform \<Rightarrow> searcher \<Rightarrow> event list \<Rightarrow> searcher" where
  "run P s es = foldl (step P) s es"

text \<open>
  The database a process leaves behind when it stops inside the loop of
  \<^verbatim>\<open>buildAndStorePhoneticIndex\<close>, after \<open>n\<close> words of \<open>wordsArray\<close>. That it is one
  of the databases the journal of the run records, and so has the flag the run gives it
  at that moment, is proved below from \<open>tryInitialize\<close>.
\<close>

definition interruptedBuild ::
  "platform \<Rightarrow> (string \<Rightarrow> encoded) \<Rightarrow> (nat \<Rightarrow> string \<Rightarrow> bool) \<Rightarrow> string list \<Rightarrow> nat
     \<Rightarrow> database \<Rightarrow> database" where
  "interruptedBuild P enc wfail wordsArray n d =
     d\<lparr>phoneticMapStore :=
         fst (snd (buildLoop P enc batchSize wfail (take n wordsArray)
                     ([], phoneticMapStore d, 0)))\<rparr>"

subsection \<open>Queries\<close>

definition getWordsForKey :: "platform \<Rightarrow> searcher \<Rightarrow> string \<Rightarrow> error + string list" where
  "getWordsForKey P s key =
     (if \<not> db s then Inl DBNotOpen
      else if getFails P (algorithmType s) key then Inl RequestError
      else Inr (words_of (phoneticMapStore (idb s)) key))"

text \<open>
  \<^verbatim>\<open>suggestMatches\<close>. Every exception of the \<^verbatim>\<open>try\<close> block (the encoder throws, the
  request of \<^verbatim>\<open>getWordsForKey\<close> fails) is caught and gives \<^verbatim>\<open>[]\<close>.
\<close>

definition suggestMatches :: "platform \<Rightarrow> searcher \<Rightarrow> string \<Rightarrow> int \<Rightarrow> string list" where
  "suggestMatches P s query limit =
     (if \<not> isReady s \<or> \<not> db s then []
      else
        (let normalizedQuery = trim P (toLowerCase P query) in
         if normalizedQuery = [] then []
         else
           (case activeAlgorithm P s normalizedQuery of
              Throws \<Rightarrow> []
            | NotAString \<Rightarrow> []
            | Code queryKey \<Rightarrow>
                (case getWordsForKey P s queryKey of
                   Inl e \<Rightarrow> []
                 | Inr matchingWords \<Rightarrow>
                     if length matchingWords = 0 then []
                     else
                       (let sortedSuggestions =
                              sortByDistance
                                (\<lambda>word. levenshtein P normalizedQuery (toLowerCase P word))
                                matchingWords
                        in slice0 limit sortedSuggestions)))))"

text \<open>An entry of the array \<^verbatim>\<open>Promise.allSettled\<close> resolves to.\<close>

datatype settled = fulfilled "string list" | rejected error

text \<open>
  The \<^verbatim>\<open>async (instance) => ...\<close> of \<^verbatim>\<open>getAllSuggestions\<close>. \<^verbatim>\<open>await instance.initialize()\<close>
  returns when the initialisation promise has settled and throws when it is rejected;
  while the promise is pending (or no run has been started) the task has not returned,
  which is the value \<open>None\<close>.
\<close>

definition instanceTask :: "platform \<Rightarrow> string \<Rightarrow> searcher \<Rightarrow> settled option" where
  "instanceTask P query instance =
     (case initializationPromise instance of
        None \<Rightarrow> None
      | Some Pending \<Rightarrow> None
      | Some (Rejected e) \<Rightarrow> Some (rejected e)
      | Some Resolved \<Rightarrow>
          Some (fulfilled
            (if isReady instance
             then suggestMatches P instance query SUGGESTIONS_PER_METHOD
             else [])))"

text \<open>\<^verbatim>\<open>allResults.forEach\<close>: the fulfilled values are pushed, the rejections logged.\<close>

definition combineResults :: "settled list \<Rightarrow> string list" where
  "combineResults allResults =
     foldl (\<lambda>combined result.
              case result of
                fulfilled v \<Rightarrow> combined @ v
              | rejected reason \<Rightarrow> combined)
           [] allResults"

text \<open>Lines 185 to 202: deduplicate, sort by distance, apply the final limit.\<close>

definition rankSuggestions :: "platform \<Rightarrow> string \<Rightarrow> string list \<Rightarrow> string list" where
  "rankSuggestions P query combined =
     (let uniqueSuggestions = from_set combined;
          normalizedQuery = trim P (toLowerCase P query)
      in if normalizedQuery = [] then []
         else
           (let sortedSuggestions =
                  sortByDistance
                    (\<lambda>word. levenshtein P normalizedQuery (toLowerCase P word))
                    uniqueSuggestions
            in slice0 FINAL_SUGGESTION_LIMIT sortedSuggestions))"

text \<open>
  \<^verbatim>\<open>getAllSuggestions\<close>, with the constant \<^verbatim>\<open>ACTIVE_TALISMAN_ALGORITHMS\<close> as the argument
  \<open>active\<close> and the global \<^verbatim>\<open>suggestors\<close> as a partial map. \<open>None\<close>: the function
  has not returned, some initialisation being still in flight.
\<close>

definition getAllSuggestionsFor ::
  "platform \<Rightarrow> TalismanPhoneticAlgorithm list
     \<Rightarrow> (TalismanPhoneticAlgorithm \<rightharpoonup> searcher) \<Rightarrow> string \<Rightarrow> string list option" where
  "getAllSuggestionsFor P active suggestors query =
     (let activeInstances = List.map_filter suggestors active in
      if length activeInstances = 0 then Some []
      else
        (case those (map (instanceTask P query) activeInstances) of
           None \<Rightarrow> None
         | Some allResults \<Rightarrow> Some (rankSuggestions P query (combineResults allResults))))"

definition getAllSuggestions ::
  "platform \<Rightarrow> (TalismanPhoneticAlgorithm \<rightharpoonup> searcher) \<Rightarrow> string \<Rightarrow> string list option" where
  "getAllSuggestions P = getAllSuggestionsFor P ACTIVE_TALISMAN_ALGORITHMS"

subsection \<open>Predicates and the aggregation in the words of the specification\<close>

text \<open>
  The searcher is Failed when its initialisation promise is rejected, and its
  initialisation has settled when the promise is resolved or rejected.
\<close>

definition failed :: "searcher \<Rightarrow> bool" where
  "failed s = (case initializationPromise s of Some (Rejected e) \<Rightarrow> True | _ \<Rightarrow> False)"

definition settledInit :: "searcher \<Rightarrow> bool" where
  "settledInit s =
     (case initializationPromise s of
        Some Resolved \<Rightarrow> True | Some (Rejected e) \<Rightarrow> True | _ \<Rightarrow> False)"

text \<open>
  An exception is raised inside the \<^verbatim>\<open>try\<close> block of \<^verbatim>\<open>suggestMatches\<close>: the encoder
  throws on the normalized query, or the \<^verbatim>\<open>get\<close> request for its code fails.
\<close>

definition suggestThrows :: "platform \<Rightarrow> searcher \<Rightarrow> string \<Rightarrow> bool" where
  "suggestThrows P s query =
     (let normalizedQuery = trim P (toLowerCase P query) in
      isReady s \<and> db s \<and> normalizedQuery \<noteq> [] \<and>
      (case activeAlgorithm P s normalizedQuery of
         Throws \<Rightarrow> True
       | NotAString \<Rightarrow> False
       | Code queryKey \<Rightarrow> getFails P (algorithmType s) queryKey))"

text \<open>
  The candidate list of one searcher for a query: what its \<^verbatim>\<open>suggestMatches\<close> returns
  for the per-method limit, and nothing for a Failed searcher.
\<close>

definition candidateList :: "platform \<Rightarrow> string \<Rightarrow> searcher \<Rightarrow> string list" where
  "candidateList P query s =
     (if failed s then [] else suggestMatches P s query SUGGESTIONS_PER_METHOD)"

text \<open>
  The words the loop of \<^verbatim>\<open>buildAndStorePhoneticIndex\<close> files under the code \<open>c\<close>:
  the trimmed source words, as they are spelt, that are not empty and whose lower-cased
  form the encoder sends to \<open>c\<close>.
\<close>

definition surfaceWords ::
  "platform \<Rightarrow> (string \<Rightarrow> encoded) \<Rightarrow> string list \<Rightarrow> string \<Rightarrow> string list" where
  "surfaceWords P enc wordsArray c =
     filter (\<lambda>tw. tw \<noteq> [] \<and> enc (toLowerCase P tw) = Code c) (map (trim P) wordsArray)"

text \<open>
  The bucket of \<open>c\<close> as the specification words it: the normalized (trimmed,
  lower-cased) source words that encode to \<open>c\<close>.
\<close>

definition spec_bucket ::
  "platform \<Rightarrow> (string \<Rightarrow> encoded) \<Rightarrow> string list \<Rightarrow> string \<Rightarrow> string list" where
  "spec_bucket P enc wordsArray c =
     filter (\<lambda>nw. nw \<noteq> [] \<and> enc nw = Code c)
       (map (\<lambda>w. toLowerCase P (trim P w)) wordsArray)"

text \<open>
  The Aggregator as the specification words it: the union of all returned words by
  exact string identity (every word once, at its first occurrence), the edit distance of
  every unique word to the normalized query recomputed (on the lower-cased word, as the
  searchers compute it), a stable sort ascending by that distance, the first
  \<open>finalLimit\<close> words.
\<close>

definition unionOfLists :: "string list list \<Rightarrow> string list" where
  "unionOfLists candidateLists = rev (remdups (rev (concat candidateLists)))"

definition spec_getSuggestions ::
  "platform \<Rightarrow> string \<Rightarrow> string list list \<Rightarrow> nat \<Rightarrow> string list" where
  "spec_getSuggestions P query candidateLists finalLimit =
     take finalLimit
       (sort_key (\<lambda>word. levenshtein P (trim P (toLowerCase P query)) (toLowerCase P word))
          (unionOfLists candidateLists))"

subsection \<open>Notions used in the proofs about the build\<close>

text \<open>The words the batch holds for the code \<open>c\<close>.\<close>

definition pending :: "batch \<Rightarrow> string \<Rightarrow> string list" where
  "pending b c = concat (map snd (filter (\<lambda>e. fst e = c) b))"

text \<open>The words filed under \<open>c\<close> so far, in the store or still in the batch.\<close>

definition held :: "batch \<times> store \<times> nat \<Rightarrow> string \<Rightarrow> string set" where
  "held acc c = (case acc of (b, st, n) \<Rightarrow> set (words_of st c) \<union> set (pending b c))"

text \<open>A \<^verbatim>\<open>Map\<close> has each key once and a \<^verbatim>\<open>Set\<close> each member once.\<close>

definition batch_ok :: "batch \<Rightarrow> bool" where
  "batch_ok b = (distinct (map fst b) \<and> (\<forall>e \<in> set b. distinct (snd e)))"

text \<open>The word list \<open>ws\<close> is what \<^verbatim>\<open>fetch\<close> delivers whenever it delivers one.\<close>

definition sourceIs :: "string list \<Rightarrow> fetch_result \<Rightarrow> bool" where
  "sourceIs ws outcome = (case loadWords outcome of Inl e \<Rightarrow> True | Inr ws' \<Rightarrow> ws' = ws)"

text \<open>
  The databases that come from the empty one by initialisation runs on the word list
  \<open>ws\<close> (in the same process or after a restart, with any failures) and by builds
  interrupted inside the loop.
\<close>

inductive builtFrom :: "platform \<Rightarrow> string list \<Rightarrow> database \<Rightarrow> bool" for P ws where
  fresh: "builtFrom P ws empty_database"
| initialised:
    "builtFrom P ws d \<Longrightarrow> sourceIs ws (fetched env)
       \<Longrightarrow> builtFrom P ws (idb (doInitialize_async P env (new_PhoneticSearcher a d)))"
| interrupted:
    "builtFrom P ws d \<Longrightarrow> builtFrom P ws (interruptedBuild P enc wfail ws n d)"

code_pred builtFrom .

text \<open>The browser's answers to the first run that completes in a list of events.\<close>

fun firstSettle :: "event list \<Rightarrow> init_env option" where
  "firstSettle [] = None"
| "firstSettle (CallInitialize # es) = firstSettle es"
| "firstSettle (Settle env # es) = Some env"

subsection \<open>A concrete platform\<close>

text \<open>
  Instances of the parameters on ASCII strings, for the closed examples below: lower
  case and trimming of blanks, the Levenshtein distance, and an encoder that sends
  \<open>chat\<close>, \<open>chatte\<close> and \<open>shat\<close> to the code \<open>X1\<close> and \<open>cat\<close> to \<open>X2\<close>, throws on
  \<open>boom\<close> and gives the empty code to everything else.
\<close>

definition lowerChar :: "char \<Rightarrow> char" where
  "lowerChar c =
     (case map_of (zip ''ABCDEFGHIJKLMNOPQRSTUVWXYZ'' ''abcdefghijklmnopqrstuvwxyz'') c of
        None \<Rightarrow> c
      | Some l \<Rightarrow> l)"

definition asciiLower :: "string \<Rightarrow> string" where
  "asciiLower = map lowerChar"

definition asciiTrim :: "string \<Rightarrow> string" where
  "asciiTrim w =
     rev (dropWhile (\<lambda>c. c = CHR '' '') (rev (dropWhile (\<lambda>c. c = CHR '' '') w)))"

fun editDistance :: "string \<Rightarrow> string \<Rightarrow> nat" where
  "editDistance [] ys = length ys"
| "editDistance (x # xs) [] = Suc (length xs)"
| "editDistance (x # xs) (y # ys) =
     (if x = y then editDistance xs ys
      else Suc (min (editDistance xs ys)
                    (min (editDistance xs (y # ys)) (editDistance (x # xs) ys))))"

definition toyEncoder :: "string \<Rightarrow> encoded" where
  "toyEncoder w =
     (if w \<in> set [''chat'', ''chatte'', ''shat''] then Code ''X1''
      else if w = ''cat'' then Code ''X2''
      else if w = ''boom'' then Throws
      else Code [])"

definition toyPlatform :: platform where
  "toyPlatform =
     \<lparr>toLowerCase = asciiLower, trim = asciiTrim, levenshtein = editDistance,
      algorithmMap = (\<lambda>a. toyEncoder), getFails = (\<lambda>a k. False)\<rparr>"

text \<open>A browser in which nothing fails and the word list is \<open>ws\<close>.\<close>

definition goodEnv :: "string list \<Rightarrow> init_env" where
  "goodEnv ws =
     \<lparr>openFails = False, checkFails = False, fetched = Response True 200 (JsonArray ws),
      writeFails = (\<lambda>n k. False), markFails = False\<rparr>"

text \<open>
  A searcher initialised on a fresh database from the word list \<open>ws\<close>, one whose
  word list could not be fetched, and a table of three searchers.
\<close>

definition builtSearcher :: "TalismanPhoneticAlgorithm \<Rightarrow> string list \<Rightarrow> searcher" where
  "builtSearcher a ws =
     doInitialize_async toyPlatform (goodEnv ws) (new_PhoneticSearcher a empty_database)"

definition failedSearcher :: "TalismanPhoneticAlgorithm \<Rightarrow> searcher" where
  "failedSearcher a =
     doInitialize_async toyPlatform ((goodEnv [])\<lparr>fetched := FetchRejects\<rparr>)
       (new_PhoneticSearcher a empty_database)"

text \<open>A browser in which every bucket write fails.\<close>

definition failingWrites :: "string list \<Rightarrow> init_env" where
  "failingWrites ws = (goodEnv ws)\<lparr>writeFails := (\<lambda>n k. True)\<rparr>"

definition toySuggestors :: "TalismanPhoneticAlgorithm \<rightharpoonup> searcher" where
  "toySuggestors =
     [phonex \<mapsto> builtSearcher phonex [''chat'', ''chatte''],
      soundex2 \<mapsto> builtSearcher soundex2 [''chat'', ''shat''],
      metaphone \<mapsto> failedSearcher metaphone]"

text \<open>
  A table whose two healthy searchers each hold more words than the per-method limit
  for one code, with one word in common, and whose third searcher is Failed.
\<close>

definition crowdedSuggestors :: "TalismanPhoneticAlgorithm \<rightharpoonup> searcher" where
  "crowdedSuggestors =
     [phonex \<mapsto> builtSearcher phonex [''zz'', ''abcd'', ''za'', ''zzzz'', ''qq'', ''zb''],
      soundex2 \<mapsto> builtSearcher soundex2 [''zc'', ''zz'', ''zzz'', ''yz'', ''zd'', ''wxyz''],
      metaphone \<mapsto> failedSearcher metaphone]"

text \<open>Two searchers built from one word list.\<close>

definition toyWords :: "string list" where
  "toyWords = ['' Chat '', ''shat'', ''cat'']"

definition toyTable :: "TalismanPhoneticAlgorithm \<rightharpoonup> searcher" where
  "toyTable =
     [phonex \<mapsto> builtSearcher phonex toyWords, soundex2 \<mapsto> builtSearcher soundex2 toyWords]"

subsection \<open>Containers: basic facts\<close>

lemma set_set_add [simp]: "set (set_add x xs) = insert x (set xs)"
  by (auto simp: set_add_def)

lemma distinct_set_add [simp]: "distinct (set_add x xs) = distinct xs"
  by (auto simp: set_add_def)

lemma foldl_set_add_set:
  "set (foldl (\<lambda>acc x. set_add x acc) acc xs) = set acc \<union> set xs"
  by (induction xs arbitrary: acc) auto

lemma foldl_set_add_distinct:
  "distinct acc \<Longrightarrow> distinct (foldl (\<lambda>acc x. set_add x acc) acc xs)"
  by (induction xs arbitrary: acc) auto

lemma foldl_set_add_absorb:
  "set xs \<subseteq> set acc \<Longrightarrow> foldl (\<lambda>acc x. set_add x acc) acc xs = acc"
  by (induction xs arbitrary: acc) (auto simp: set_add_def)

lemma foldl_set_add_append:
  "distinct xs \<Longrightarrow> foldl (\<lambda>acc x. set_add x acc) [] xs = xs"
proof (induction xs rule: rev_induct)
  case Nil
  then show ?case by simp
next
  case (snoc x xs)
  then show ?case by (simp add: set_add_def)
qed

lemma set_from_set [simp]: "set (from_set xs) = set xs"
  by (simp add: from_set_def foldl_set_add_set)

lemma distinct_from_set [simp]: "distinct (from_set xs)"
  by (simp add: from_set_def foldl_set_add_distinct)

lemma from_set_distinct_id: "distinct xs \<Longrightarrow> from_set xs = xs"
  by (simp add: from_set_def foldl_set_add_append)

lemma from_set_append_absorb:
  assumes "distinct xs" "set ys \<subseteq> set xs"
  shows "from_set (xs @ ys) = xs"
proof -
  have "from_set (xs @ ys) = foldl (\<lambda>acc x. set_add x acc) (from_set xs) ys"
    by (simp add: from_set_def)
  also have "\<dots> = foldl (\<lambda>acc x. set_add x acc) xs ys"
    using assms(1) by (simp add: from_set_distinct_id)
  also have "\<dots> = xs"
    using assms(2) by (rule foldl_set_add_absorb)
  finally show ?thesis .
qed

subsection \<open>The build and the initialisation by their results\<close>

lemma buildIndex_unfold:
  "buildIndex P enc bs outcome wfail dbOpen st =
     (if \<not> dbOpen then Inl DBNotOpen
      else case loadWords outcome of
             Inl e \<Rightarrow> Inl e
           | Inr wordsArray \<Rightarrow>
               Inr (finalFlush wfail (buildLoop P enc bs wfail wordsArray ([], st, 0))))"
  by (simp add: buildIndex_def buildIndexStores_def split: sum.splits)

lemma buildIndexStores_cases:
  "(\<exists>e. buildIndexStores P enc bs outcome wfail dbOpen st = Inl e
         \<and> buildIndex P enc bs outcome wfail dbOpen st = Inl e)
   \<or> (\<exists>stores. buildIndexStores P enc bs outcome wfail dbOpen st = Inr stores
         \<and> stores \<noteq> []
         \<and> buildIndex P enc bs outcome wfail dbOpen st = Inr (last stores))"
  by (auto simp: buildIndex_def buildIndexStores_def split: sum.splits)

lemma foldl_written:
  "stores \<noteq> [] \<Longrightarrow>
     foldl (\<lambda>s st. written ((idb s)\<lparr>phoneticMapStore := st\<rparr>) s) s stores =
       s\<lparr>idb := (idb s)\<lparr>phoneticMapStore := last stores\<rparr>,
         journal := journal s @ map (\<lambda>st. (idb s)\<lparr>phoneticMapStore := st\<rparr>) stores\<rparr>"
proof (induction stores arbitrary: s)
  case Nil
  then show ?case by simp
next
  case (Cons st stores)
  show ?case
  proof (cases "stores = []")
    case True
    then show ?thesis by (simp add: written_def)
  next
    case False
    then show ?thesis
      using Cons.IH [of "written ((idb s)\<lparr>phoneticMapStore := st\<rparr>) s"]
      by (simp add: written_def)
  qed
qed

lemma foldl_written_unfolded:
  "stores \<noteq> [] \<Longrightarrow>
     foldl (\<lambda>s st. s\<lparr>idb := (idb s)\<lparr>phoneticMapStore := st\<rparr>,
                      journal := journal s @ [(idb s)\<lparr>phoneticMapStore := st\<rparr>]\<rparr>)
       (s::searcher) stores =
       s\<lparr>idb := (idb s)\<lparr>phoneticMapStore := last stores\<rparr>,
         journal := journal s @ map (\<lambda>st. (idb s)\<lparr>phoneticMapStore := st\<rparr>) stores\<rparr>"
  using foldl_written [of stores s] unfolding written_def .

text \<open>
  The \<^verbatim>\<open>try\<close> block in terms of what the build returns: the equation the definition
  had before the journal was threaded through it.
\<close>

lemma tryInitialize_unfold:
  "tryInitialize P env s0 =
     (case openDatabase env of
        Inl e \<Rightarrow> (Some e, s0)
      | Inr h \<Rightarrow>
          (let s1 = s0\<lparr>db := h\<rparr> in
           case checkIfInitialized env s1 of
             Inl e \<Rightarrow> (Some e, s1)
           | Inr isInitialized \<Rightarrow>
               if \<not> isInitialized then
                 (let s2 = s1\<lparr>console := console s1 @ [LogBuilding]\<rparr> in
                  case buildAndStorePhoneticIndex P (activeAlgorithm P s2) (fetched env)
                         (writeFails env) (db s2) (phoneticMapStore (idb s2)) of
                    Inl e \<Rightarrow> (Some e, s2)
                  | Inr st \<Rightarrow>
                      (let s3 = s2\<lparr>idb := (idb s2)\<lparr>phoneticMapStore := st\<rparr>,
                                  journal := journal s2 @
                                    map (\<lambda>st. (idb s2)\<lparr>phoneticMapStore := st\<rparr>)
                                      (projr (buildIndexStores P (activeAlgorithm P s2) batchSize
                                         (fetched env) (writeFails env) (db s2)
                                         (phoneticMapStore (idb s2))))\<rparr> in
                       case markAsInitialized env s3 of
                         Inl e \<Rightarrow> (Some e, s3)
                       | Inr d \<Rightarrow>
                           (None, s3\<lparr>idb := d, journal := journal s3 @ [d], isReady := True,
                                     console := console s3 @ [LogComplete]\<rparr>)))
               else
                 (None, s1\<lparr>isReady := True,
                           console := console s1 @ [LogAlreadyInitialized, LogComplete]\<rparr>)))"
proof (cases "openDatabase env")
  case (Inl e)
  then show ?thesis by (simp add: tryInitialize_def)
next
  case (Inr h)
  let ?s1 = "s0\<lparr>db := h\<rparr>"
  show ?thesis
  proof (cases "checkIfInitialized env ?s1")
    case (Inl e)
    with Inr show ?thesis by (simp add: tryInitialize_def)
  next
    case chk: (Inr isInitialized)
    show ?thesis
    proof (cases isInitialized)
      case True
      with Inr chk show ?thesis by (simp add: tryInitialize_def)
    next
      case False
      let ?s2 = "?s1\<lparr>console := console ?s1 @ [LogBuilding]\<rparr>"
      from buildIndexStores_cases [of P "activeAlgorithm P ?s2" batchSize "fetched env"
          "writeFails env" "db ?s2" "phoneticMapStore (idb ?s2)"]
      show ?thesis
      proof (elim disjE exE conjE)
        fix e
        assume "buildIndexStores P (activeAlgorithm P ?s2) batchSize (fetched env)
            (writeFails env) (db ?s2) (phoneticMapStore (idb ?s2)) = Inl e"
          and "buildIndex P (activeAlgorithm P ?s2) batchSize (fetched env)
            (writeFails env) (db ?s2) (phoneticMapStore (idb ?s2)) = Inl e"
        with Inr chk False show ?thesis
          by (simp add: tryInitialize_def buildAndStorePhoneticIndex_def)
      next
        fix stores
        assume "buildIndexStores P (activeAlgorithm P ?s2) batchSize (fetched env)
            (writeFails env) (db ?s2) (phoneticMapStore (idb ?s2)) = Inr stores"
          and "stores \<noteq> []"
          and "buildIndex P (activeAlgorithm P ?s2) batchSize (fetched env)
            (writeFails env) (db ?s2) (phoneticMapStore (idb ?s2)) = Inr (last stores)"
        with Inr chk False show ?thesis
          by (simp add: tryInitialize_def buildAndStorePhoneticIndex_def foldl_written_unfolded
                written_def Let_def split: sum.splits)
      qed
    qed
  qed
qed

lemma new_PhoneticSearcher_fields:
  "new_PhoneticSearcher a d =
     \<lparr>db = False, isInitializing = True, initializationPromise = Some Pending,
      isReady = False, algorithmType = a, idb = d, console = [LogStarting], journal = []\<rparr>"
  by (simp add: new_PhoneticSearcher_def initialize_def)

subsection \<open>Runs on the concrete platform\<close>

lemmas toy_defs =
  builtSearcher_def failedSearcher_def toySuggestors_def failingWrites_def suggestMatches_def
  new_PhoneticSearcher_def initialize_def
  doInitialize_async_def tryInitialize_def openDatabase_def checkIfInitialized_def
  markAsInitialized_def buildAndStorePhoneticIndex_def buildIndex_def buildIndexStores_def
  written_def buildLoop_def loopBody_def finalFlush_def writeBatch_def mergeWords_def toyPlatform_def goodEnv_def empty_database_def
  activeAlgorithm_def toyEncoder_def asciiLower_def asciiTrim_def lowerChar_def batchSize_def
  getWordsForKey_def words_of_def sortByDistance_def slice0_def set_add_def from_set_def
  failed_def settledInit_def candidateList_def suggestThrows_def
  SUGGESTIONS_PER_METHOD_def FINAL_SUGGESTION_LIMIT_def ACTIVE_TALISMAN_ALGORITHMS_def
  getAllSuggestions_def getAllSuggestionsFor_def instanceTask_def combineResults_def
  rankSuggestions_def spec_getSuggestions_def unionOfLists_def

lemma toy_suggestMatches:
  "suggestMatches toyPlatform (builtSearcher phonex [''chat'', ''chatte'', ''shat'', ''cat''])
     ''shat'' 5 = [''shat'', ''chat'', ''chatte'']"
  by (simp add: toy_defs)

lemma toy_settled:
  "list_all settledInit (List.map_filter toySuggestors ACTIVE_TALISMAN_ALGORITHMS)"
  by (simp add: toy_defs)

lemma toy_settled2:
  "list_all settledInit (List.map_filter toySuggestors [phonex, soundex2])"
  by (simp add: toy_defs)

lemma toy_getAllSuggestions:
  "getAllSuggestions toyPlatform toySuggestors ''chat'' = Some [''chat'', ''shat'', ''chatte'']"
  by (simp add: toy_defs)

lemma toy_failed: "toySuggestors metaphone = Some (failedSearcher metaphone) \<and> failed (failedSearcher metaphone)"
  by (simp add: toy_defs)

subsection \<open>mergeWords\<close>

lemma words_of_mergeWords_set:
  "set (words_of (mergeWords st k wta) c) =
     (if c = k then set (words_of st k) \<union> set wta else set (words_of st c))"
  by (auto simp: words_of_def mergeWords_def split: option.splits)

lemma words_of_mergeWords_other:
  "c \<noteq> k \<Longrightarrow> words_of (mergeWords st k wta) c = words_of st c"
  by (simp add: words_of_def mergeWords_def split: option.splits)

lemma mergeWords_again:
  assumes "distinct S" "set S' \<subseteq> set S"
  shows "mergeWords (mergeWords st c S) c S' = mergeWords st c S"
proof (cases "st c")
  case None
  then show ?thesis
    using assms by (simp add: mergeWords_def from_set_append_absorb)
next
  case (Some er)
  have "from_set (from_set (er @ S) @ S') = from_set (er @ S)"
    using assms(2) by (intro from_set_append_absorb) auto
  with Some show ?thesis
    by (simp add: mergeWords_def)
qed

text \<open>
  Claim C6. \<^verbatim>\<open>mergeWords\<close> is an idempotent union on buckets: for a word set \<open>S\<close> (a
  JavaScript \<^verbatim>\<open>Set\<close>, so a list without duplicates), merging \<open>(c, S)\<close> and then
  merging \<open>(c, S)\<close> again, or any subset \<open>S'\<close> of \<open>S\<close>, leaves the store that
  merging \<open>(c, S)\<close> once leaves, and the bucket of \<open>c\<close> then holds the union of the
  words stored before and \<open>S\<close>.
\<close>

theorem mergeWords_idempotent_union:
  assumes "distinct S" and "set S' \<subseteq> set S"
  shows "mergeWords (mergeWords st c S) c S = mergeWords st c S
       \<and> mergeWords (mergeWords st c S) c S' = mergeWords st c S
       \<and> set (words_of (mergeWords st c S) c) = set (words_of st c) \<union> set S"
proof -
  have "mergeWords (mergeWords st c S) c S = mergeWords st c S"
    using assms(1) by (simp add: mergeWords_again)
  moreover have "mergeWords (mergeWords st c S) c S' = mergeWords st c S"
    using assms by (rule mergeWords_again)
  moreover have "set (words_of (mergeWords st c S) c) = set (words_of st c) \<union> set S"
    by (simp add: words_of_mergeWords_set)
  ultimately show ?thesis by simp
qed

theorem mergeWords_idempotent_union_witness:
  "distinct [''chat'', ''shat''] \<and> set [''shat''] \<subseteq> set [''chat'', ''shat'']
   \<and> mergeWords (mergeWords [''X1'' \<mapsto> [''chatte'', ''chat'']] ''X1'' [''chat'', ''shat''])
        ''X1'' [''shat'']
       = mergeWords [''X1'' \<mapsto> [''chatte'', ''chat'']] ''X1'' [''chat'', ''shat'']
   \<and> words_of (mergeWords [''X1'' \<mapsto> [''chatte'', ''chat'']] ''X1'' [''chat'', ''shat'']) ''X1''
       = [''chatte'', ''chat'', ''shat'']"
proof -
  have d: "distinct [''chat'', ''shat'']" by simp
  have s: "set [''shat''] \<subseteq> set [''chat'', ''shat'']" by simp
  have w: "words_of (mergeWords [''X1'' \<mapsto> [''chatte'', ''chat'']] ''X1'' [''chat'', ''shat''])
             ''X1'' = [''chatte'', ''chat'', ''shat'']"
    by (simp add: words_of_def mergeWords_def from_set_def set_add_def)
  from mergeWords_idempotent_union [OF d s, of "[''X1'' \<mapsto> [''chatte'', ''chat'']]" "''X1''"]
  have "mergeWords (mergeWords [''X1'' \<mapsto> [''chatte'', ''chat'']] ''X1'' [''chat'', ''shat''])
          ''X1'' [''shat'']
        = mergeWords [''X1'' \<mapsto> [''chatte'', ''chat'']] ''X1'' [''chat'', ''shat'']"
    by blast
  with d s w show ?thesis by blast
qed

subsection \<open>Sorting, slicing and deduplication\<close>

lemma insort_key_pairs:
  "\<forall>p \<in> set ps. snd p = d (fst p) \<Longrightarrow>
     map fst (insort_key snd (x, d x) ps) = insort_key d x (map fst ps)"
  by (induction ps) auto

lemma set_insort_pairs:
  "\<forall>p \<in> set ps. snd p = d (fst p) \<Longrightarrow> \<forall>p \<in> set (insort_key snd (x, d x) ps). snd p = d (fst p)"
  by (auto simp: set_insort_key)

lemma sort_key_pairs:
  "map fst (sort_key snd (map (\<lambda>w. (w, d w)) ws)) = sort_key d ws"
proof (induction ws)
  case Nil
  then show ?case by simp
next
  case (Cons w ws)
  have "\<forall>p \<in> set (sort_key snd (map (\<lambda>w. (w, d w)) ws)). snd p = d (fst p)"
    by auto
  then show ?case
    using Cons by (simp add: insort_key_pairs)
qed

lemma sortByDistance_sort_key: "sortByDistance d ws = sort_key d ws"
  by (simp add: sortByDistance_def sort_key_pairs)

lemma slice0_take: "slice0 e xs = take (nat (if e < 0 then int (length xs) + e else e)) xs"
  by (auto simp: slice0_def Let_def min_def max_def)

lemma slice0_nonneg: "0 \<le> e \<Longrightarrow> slice0 e xs = take (nat e) xs"
  by (simp add: slice0_take)

lemma length_slice0: "0 \<le> e \<Longrightarrow> int (length (slice0 e xs)) \<le> e"
  by (simp add: slice0_nonneg)

lemma set_slice0: "set (slice0 e xs) \<subseteq> set xs"
  by (simp add: slice0_take set_take_subset)

lemma sorted_slice0: "sorted (map f xs) \<Longrightarrow> sorted (map f (slice0 e xs))"
  by (simp add: slice0_take take_map [symmetric])

lemma from_set_snoc: "from_set (xs @ [x]) = set_add x (from_set xs)"
  by (simp add: from_set_def)

lemma from_set_remdups: "from_set xs = rev (remdups (rev xs))"
proof (induction xs rule: rev_induct)
  case Nil
  then show ?case by (simp add: from_set_def)
next
  case (snoc x xs)
  then show ?case by (simp add: from_set_snoc set_add_def)
qed

subsection \<open>suggestMatches\<close>

lemma suggestMatches_cases:
  "suggestMatches P s query limit = [] \<or>
   (\<exists>k. suggestMatches P s query limit =
      slice0 limit (sort_key (\<lambda>word. levenshtein P (trim P (toLowerCase P query)) (toLowerCase P word))
         (words_of (phoneticMapStore (idb s)) k)))"
  by (auto simp: suggestMatches_def Let_def getWordsForKey_def sortByDistance_sort_key
           split: encoded.splits sum.splits)

text \<open>
  Claim C5. For every query, every stored index and every limit that is a count
  (\<open>0 \<le> limit\<close>), \<^verbatim>\<open>suggestMatches(query, limit)\<close> returns at most \<open>limit\<close> words;
  and for every limit the words returned are in ascending order of the edit distance
  between the normalized query and the lower-cased candidate.
\<close>

theorem suggestMatches_bounded_sorted:
  "sorted (map (\<lambda>word. levenshtein P (trim P (toLowerCase P query)) (toLowerCase P word))
             (suggestMatches P s query limit))
   \<and> (0 \<le> limit \<longrightarrow> int (length (suggestMatches P s query limit)) \<le> limit)"
  using suggestMatches_cases [of P s query limit]
  by (auto simp: sorted_slice0 length_slice0)

theorem suggestMatches_bounded_sorted_witness:
  "(0::int) \<le> 5 \<and>
   suggestMatches toyPlatform (builtSearcher phonex [''chat'', ''chatte'', ''shat'', ''cat''])
     ''shat'' 5 = [''shat'', ''chat'', ''chatte''] \<and>
   int (length (suggestMatches toyPlatform
          (builtSearcher phonex [''chat'', ''chatte'', ''shat'', ''cat'']) ''shat'' 5)) \<le> 5"
  using suggestMatches_bounded_sorted [of toyPlatform "''shat''"
          "builtSearcher phonex [''chat'', ''chatte'', ''shat'', ''cat'']" 5]
  by (simp add: toy_suggestMatches)

lemma suggestMatches_empty_query:
  "trim P (toLowerCase P query) = [] \<Longrightarrow> suggestMatches P s query limit = []"
  by (simp add: suggestMatches_def)

lemma suggestMatches_not_ready: "\<not> isReady s \<Longrightarrow> suggestMatches P s query limit = []"
  by (simp add: suggestMatches_def)

subsection \<open>getAllSuggestions\<close>

lemma combineResults_aux:
  "foldl (\<lambda>combined result. case result of fulfilled v \<Rightarrow> combined @ v | rejected reason \<Rightarrow> combined) acc rs
     = acc @ concat (map (\<lambda>r. case r of fulfilled v \<Rightarrow> v | rejected e \<Rightarrow> []) rs)"
  by (induction rs arbitrary: acc) (auto split: settled.splits)

lemma combineResults_concat:
  "combineResults rs = concat (map (\<lambda>r. case r of fulfilled v \<Rightarrow> v | rejected e \<Rightarrow> []) rs)"
  by (simp add: combineResults_def combineResults_aux)

lemma instanceTask_settled:
  "settledInit s \<Longrightarrow>
     instanceTask P query s =
       Some (if failed s then rejected (case initializationPromise s of Some (Rejected e) \<Rightarrow> e)
             else fulfilled (candidateList P query s))"
  by (auto simp: instanceTask_def settledInit_def failed_def candidateList_def suggestMatches_not_ready
           split: option.splits promise.splits)

lemma instanceTask_value:
  "instanceTask P query s = Some r \<Longrightarrow>
     (case r of fulfilled v \<Rightarrow> v | rejected e \<Rightarrow> []) = candidateList P query s"
  by (auto simp: instanceTask_def failed_def candidateList_def suggestMatches_not_ready
           split: option.splits promise.splits)

lemma those_map_Some:
  "those (map f xs) = Some ys \<Longrightarrow> length ys = length xs \<and> (\<forall>i < length xs. f (xs ! i) = Some (ys ! i))"
proof (induction xs arbitrary: ys)
  case Nil
  then show ?case by simp
next
  case (Cons x xs)
  then show ?case
    by (auto split: option.splits simp: nth_Cons split: nat.splits)
qed

lemma those_instanceTask_combine:
  "those (map (instanceTask P query) ss) = Some rs \<Longrightarrow>
     combineResults rs = concat (map (candidateList P query) ss)"
proof (induction ss arbitrary: rs)
  case Nil
  then show ?case by (simp add: combineResults_concat)
next
  case (Cons s ss)
  then show ?case
    by (auto simp: combineResults_concat split: option.splits dest: instanceTask_value)
qed

lemma those_all_settled:
  "\<forall>s \<in> set ss. settledInit s \<Longrightarrow> \<exists>rs. those (map (instanceTask P query) ss) = Some rs"
  by (induction ss) (auto simp: instanceTask_settled)

lemma those_Some_settled:
  "those (map (instanceTask P query) ss) = Some rs \<Longrightarrow> \<forall>s \<in> set ss. settledInit s"
  by (induction ss arbitrary: rs)
     (auto simp: instanceTask_def settledInit_def split: option.splits promise.splits)

lemma rankSuggestions_Nil [simp]: "rankSuggestions P query [] = []"
  by (simp add: rankSuggestions_def Let_def from_set_def sortByDistance_def slice0_def)

lemma getAllSuggestionsFor_Some:
  "getAllSuggestionsFor P active suggestors query = Some r \<Longrightarrow>
     r = rankSuggestions P query (concat (map (candidateList P query) (List.map_filter suggestors active)))"
  by (auto simp: getAllSuggestionsFor_def Let_def split: if_splits option.splits
           dest: those_instanceTask_combine)

lemma getAllSuggestionsFor_settled:
  assumes "\<forall>s \<in> set (List.map_filter suggestors active). settledInit s"
  shows "getAllSuggestionsFor P active suggestors query =
     Some (rankSuggestions P query (concat (map (candidateList P query) (List.map_filter suggestors active))))"
proof -
  obtain rs where "those (map (instanceTask P query) (List.map_filter suggestors active)) = Some rs"
    using those_all_settled [OF assms] by blast
  then show ?thesis
    by (auto simp: getAllSuggestionsFor_def Let_def those_instanceTask_combine)
qed

lemma length_rankSuggestions: "length (rankSuggestions P query ws) \<le> 7"
  using length_slice0 [of FINAL_SUGGESTION_LIMIT]
  by (auto simp: rankSuggestions_def Let_def FINAL_SUGGESTION_LIMIT_def slice0_nonneg)

lemma map_filter_append: "List.map_filter f (xs @ ys) = List.map_filter f xs @ List.map_filter f ys"
  by (simp add: List.map_filter_def)

lemma getAllSuggestionsFor_char:
  "getAllSuggestionsFor P active suggestors query =
     (if \<forall>s \<in> set (List.map_filter suggestors active). settledInit s
      then Some (rankSuggestions P query
                   (concat (map (candidateList P query) (List.map_filter suggestors active))))
      else None)"
proof (cases "\<forall>s \<in> set (List.map_filter suggestors active). settledInit s")
  case True
  then show ?thesis by (simp add: getAllSuggestionsFor_settled)
next
  case False
  then have "those (map (instanceTask P query) (List.map_filter suggestors active)) = None"
    using those_Some_settled [of P query "List.map_filter suggestors active"] by fastforce
  moreover have "List.map_filter suggestors active \<noteq> []"
    using False by auto
  ultimately show ?thesis
    using False by (simp add: getAllSuggestionsFor_def Let_def)
qed

lemma suggestThrows_empty:
  "suggestThrows P s query \<Longrightarrow> suggestMatches P s query limit = []"
  by (auto simp: suggestThrows_def suggestMatches_def Let_def getWordsForKey_def
           split: encoded.splits)

lemma rank_is_spec:
  assumes "trim P (toLowerCase P query) = [] \<longrightarrow> concat candidateLists = []"
  shows "rankSuggestions P query (concat candidateLists) =
           spec_getSuggestions P query candidateLists (nat FINAL_SUGGESTION_LIMIT)"
proof (cases "trim P (toLowerCase P query) = []")
  case True
  with assms have "concat candidateLists = []" by simp
  then show ?thesis
    by (simp add: spec_getSuggestions_def unionOfLists_def del: concat_eq_Nil_conv)
next
  case False
  then show ?thesis
    by (simp add: rankSuggestions_def Let_def spec_getSuggestions_def unionOfLists_def
          sortByDistance_sort_key from_set_remdups slice0_nonneg FINAL_SUGGESTION_LIMIT_def)
qed

lemma candidateList_empty_query:
  "trim P (toLowerCase P query) = [] \<Longrightarrow> candidateList P query s = []"
  by (simp add: candidateList_def suggestMatches_empty_query)

text \<open>
  Claim C4. For every query and every table of searchers whose initialisation has
  settled, the result of \<^verbatim>\<open>getAllSuggestions\<close> is the aggregation in the words of the
  specification applied to the candidate lists of the active searchers: their union by
  exact string identity, ranked again by the edit distance to the normalized query with
  a stable sort, cut at the final limit.
\<close>

theorem getAllSuggestions_is_spec:
  "list_all settledInit (List.map_filter suggestors active) \<longrightarrow>
     getAllSuggestionsFor P active suggestors query =
       Some (spec_getSuggestions P query
               (map (candidateList P query) (List.map_filter suggestors active))
               (nat FINAL_SUGGESTION_LIMIT))"
proof
  assume a: "list_all settledInit (List.map_filter suggestors active)"
  have "trim P (toLowerCase P query) = [] \<longrightarrow>
          concat (map (candidateList P query) (List.map_filter suggestors active)) = []"
    by (simp add: candidateList_empty_query)
  then show "getAllSuggestionsFor P active suggestors query =
       Some (spec_getSuggestions P query
               (map (candidateList P query) (List.map_filter suggestors active))
               (nat FINAL_SUGGESTION_LIMIT))"
    using a by (simp add: getAllSuggestionsFor_char rank_is_spec list_all_iff)
qed

theorem getAllSuggestions_is_spec_witness:
  "list_all settledInit (List.map_filter toySuggestors ACTIVE_TALISMAN_ALGORITHMS)
   \<and> getAllSuggestionsFor toyPlatform ACTIVE_TALISMAN_ALGORITHMS toySuggestors ''chat''
      = Some (spec_getSuggestions toyPlatform ''chat''
               (map (candidateList toyPlatform ''chat'')
                  (List.map_filter toySuggestors ACTIVE_TALISMAN_ALGORITHMS))
               (nat FINAL_SUGGESTION_LIMIT))
   \<and> getAllSuggestionsFor toyPlatform ACTIVE_TALISMAN_ALGORITHMS toySuggestors ''chat''
      = Some [''chat'', ''shat'', ''chatte'']"
  using getAllSuggestions_is_spec [of toySuggestors ACTIVE_TALISMAN_ALGORITHMS toyPlatform "''chat''"]
    toy_settled toy_getAllSuggestions
  by (simp add: getAllSuggestions_def)

lemma healthy_lists:
  "concat (map (candidateList P query) ss) =
     concat (map (\<lambda>t. suggestMatches P t query SUGGESTIONS_PER_METHOD)
               (filter (\<lambda>t. \<not> failed t) ss))"
  by (induction ss) (simp_all add: candidateList_def)

lemma healthy_lists_empty_query:
  "trim P (toLowerCase P query) = [] \<Longrightarrow>
     concat (map (\<lambda>t. suggestMatches P t query SUGGESTIONS_PER_METHOD) ss) = []"
  by (simp add: suggestMatches_empty_query)

text \<open>
  Claim C1. An active searcher that is Failed (its initialisation promise is rejected),
  or whose \<^verbatim>\<open>suggestMatches\<close> raises an exception inside, contributes exactly the empty
  list: the result of \<^verbatim>\<open>getAllSuggestions\<close> with it is the result without it, and when
  the other active searchers have settled the function returns the deduplicated,
  distance-ranked result, cut at the final limit, of the candidate lists of the
  remaining healthy searchers.
\<close>

theorem failed_searcher_isolated:
  assumes "suggestors a = Some s"
    and "failed s \<or> (initializationPromise s = Some Resolved \<and> suggestThrows P s query)"
  shows "(\<exists>r. instanceTask P query s = Some r \<and> combineResults [r] = [])
     \<and> getAllSuggestionsFor P (xs @ a # ys) suggestors query =
         getAllSuggestionsFor P (xs @ ys) suggestors query
     \<and> (list_all settledInit (List.map_filter suggestors (xs @ ys)) \<longrightarrow>
          getAllSuggestionsFor P (xs @ a # ys) suggestors query =
            Some (spec_getSuggestions P query
                    (map (\<lambda>t. suggestMatches P t query SUGGESTIONS_PER_METHOD)
                       (filter (\<lambda>t. \<not> failed t) (List.map_filter suggestors (xs @ ys))))
                    (nat FINAL_SUGGESTION_LIMIT)))"
proof -
  let ?healthy = "filter (\<lambda>t. \<not> failed t) (List.map_filter suggestors (xs @ ys))"
  let ?lists = "map (\<lambda>t. suggestMatches P t query SUGGESTIONS_PER_METHOD) ?healthy"
  have st: "settledInit s"
    using assms(2) by (auto simp: failed_def settledInit_def split: option.splits promise.splits)
  have cl: "candidateList P query s = []"
    using assms(2) by (auto simp: candidateList_def suggestThrows_empty)
  have mf: "List.map_filter suggestors (xs @ a # ys) =
              List.map_filter suggestors xs @ s # List.map_filter suggestors ys"
    using assms(1) by (simp add: map_filter_append)
  have eq: "getAllSuggestionsFor P (xs @ a # ys) suggestors query =
         getAllSuggestionsFor P (xs @ ys) suggestors query"
    unfolding getAllSuggestionsFor_char mf
    using st cl by (simp add: map_filter_append ball_Un)
  obtain r where r: "instanceTask P query s = Some r"
    using st by (auto simp: instanceTask_settled)
  then have c: "combineResults [r] = []"
    using instanceTask_value [OF r] cl by (simp add: combineResults_concat)
  have "trim P (toLowerCase P query) = [] \<longrightarrow> concat ?lists = []"
    by (simp add: suggestMatches_empty_query)
  then have "rankSuggestions P query (concat ?lists)
               = spec_getSuggestions P query ?lists (nat FINAL_SUGGESTION_LIMIT)"
    by (rule rank_is_spec)
  then have sp: "rankSuggestions P query
            (concat (map (candidateList P query) (List.map_filter suggestors (xs @ ys))))
          = spec_getSuggestions P query ?lists (nat FINAL_SUGGESTION_LIMIT)"
    by (simp only: healthy_lists)
  have "list_all settledInit (List.map_filter suggestors (xs @ ys)) \<longrightarrow>
          getAllSuggestionsFor P (xs @ ys) suggestors query =
            Some (spec_getSuggestions P query ?lists (nat FINAL_SUGGESTION_LIMIT))"
    by (simp add: getAllSuggestionsFor_char list_all_iff sp)
  with r c eq show ?thesis by simp
qed

lemma builtSearcher_view:
  "isReady (builtSearcher a ws) \<and> db (builtSearcher a ws)
   \<and> initializationPromise (builtSearcher a ws) = Some Resolved
   \<and> algorithmType (builtSearcher a ws) = a
   \<and> phoneticMapStore (idb (builtSearcher a ws))
       = finalFlush (\<lambda>n k. False)
           (buildLoop toyPlatform toyEncoder batchSize (\<lambda>n k. False) ws ([], Map.empty, 0))"
  by (simp add: builtSearcher_def doInitialize_async_def tryInitialize_unfold
        new_PhoneticSearcher_fields openDatabase_def checkIfInitialized_def
        markAsInitialized_def buildAndStorePhoneticIndex_def buildIndex_unfold goodEnv_def
        empty_database_def activeAlgorithm_def toyPlatform_def Let_def)

lemmas query_defs =
  suggestMatches_def getWordsForKey_def activeAlgorithm_def words_of_def sortByDistance_def
  slice0_def Let_def SUGGESTIONS_PER_METHOD_def FINAL_SUGGESTION_LIMIT_def
  toyPlatform_def toyEncoder_def asciiLower_def asciiTrim_def lowerChar_def
  finalFlush_def buildLoop_def loopBody_def writeBatch_def mergeWords_def batchSize_def
  set_add_def from_set_def

lemma crowded_phonex:
  "suggestMatches toyPlatform
     (builtSearcher phonex [''zz'', ''abcd'', ''za'', ''zzzz'', ''qq'', ''zb'']) ''zz''
     SUGGESTIONS_PER_METHOD = [''zz'', ''za'', ''zb'', ''zzzz'', ''qq'']"
  by (simp add: builtSearcher_view query_defs)

lemma crowded_soundex2:
  "suggestMatches toyPlatform
     (builtSearcher soundex2 [''zc'', ''zz'', ''zzz'', ''yz'', ''zd'', ''wxyz'']) ''zz''
     SUGGESTIONS_PER_METHOD = [''zz'', ''zc'', ''zzz'', ''yz'', ''zd'']"
  by (simp add: builtSearcher_view query_defs)

lemma crowded_lists:
  "crowdedSuggestors metaphone = Some (failedSearcher metaphone)
   \<and> failed (failedSearcher metaphone)
   \<and> list_all settledInit (List.map_filter crowdedSuggestors ([phonex, soundex2] @ []))
   \<and> map (\<lambda>t. suggestMatches toyPlatform t ''zz'' SUGGESTIONS_PER_METHOD)
        (filter (\<lambda>t. \<not> failed t) (List.map_filter crowdedSuggestors ([phonex, soundex2] @ [])))
      = [[''zz'', ''za'', ''zb'', ''zzzz'', ''qq''], [''zz'', ''zc'', ''zzz'', ''yz'', ''zd'']]"
  using toy_failed
  by (simp add: crowdedSuggestors_def crowded_phonex crowded_soundex2 failed_def settledInit_def
        builtSearcher_view)


lemma crowded_spec:
  "spec_getSuggestions toyPlatform ''zz''
     [[''zz'', ''za'', ''zb'', ''zzzz'', ''qq''], [''zz'', ''zc'', ''zzz'', ''yz'', ''zd'']]
     (nat FINAL_SUGGESTION_LIMIT)
   = [''zz'', ''za'', ''zb'', ''zc'', ''zzz'', ''yz'', ''zd'']"
  by (simp add: toy_defs)

theorem failed_searcher_isolated_witness:
  "crowdedSuggestors metaphone = Some (failedSearcher metaphone)
   \<and> failed (failedSearcher metaphone)
   \<and> list_all settledInit (List.map_filter crowdedSuggestors ([phonex, soundex2] @ []))
   \<and> map (\<lambda>t. suggestMatches toyPlatform t ''zz'' SUGGESTIONS_PER_METHOD)
        (filter (\<lambda>t. \<not> failed t) (List.map_filter crowdedSuggestors ([phonex, soundex2] @ [])))
      = [[''zz'', ''za'', ''zb'', ''zzzz'', ''qq''], [''zz'', ''zc'', ''zzz'', ''yz'', ''zd'']]
   \<and> getAllSuggestionsFor toyPlatform ([phonex, soundex2] @ metaphone # []) crowdedSuggestors ''zz''
      = getAllSuggestionsFor toyPlatform ([phonex, soundex2] @ []) crowdedSuggestors ''zz''
   \<and> getAllSuggestionsFor toyPlatform ([phonex, soundex2] @ metaphone # []) crowdedSuggestors ''zz''
      = Some [''zz'', ''za'', ''zb'', ''zc'', ''zzz'', ''yz'', ''zd'']"
proof -
  have a: "crowdedSuggestors metaphone = Some (failedSearcher metaphone)"
    using crowded_lists by simp
  have b: "failed (failedSearcher metaphone) \<or>
     (initializationPromise (failedSearcher metaphone) = Some Resolved \<and>
      suggestThrows toyPlatform (failedSearcher metaphone) ''zz'')"
    using crowded_lists by simp
  note t = failed_searcher_isolated [where suggestors = crowdedSuggestors and a = metaphone
        and s = "failedSearcher metaphone" and P = toyPlatform and query = "''zz''"
        and xs = "[phonex, soundex2]" and ys = "[]", OF a b]
  have e: "list_all settledInit (List.map_filter crowdedSuggestors ([phonex, soundex2] @ []))"
    using crowded_lists by blast
  have d: "getAllSuggestionsFor toyPlatform ([phonex, soundex2] @ metaphone # []) crowdedSuggestors ''zz''
      = getAllSuggestionsFor toyPlatform ([phonex, soundex2] @ []) crowdedSuggestors ''zz''"
    using t by blast
  from t e have "getAllSuggestionsFor toyPlatform ([phonex, soundex2] @ metaphone # [])
        crowdedSuggestors ''zz''
      = Some (spec_getSuggestions toyPlatform ''zz''
                (map (\<lambda>t. suggestMatches toyPlatform t ''zz'' SUGGESTIONS_PER_METHOD)
                   (filter (\<lambda>t. \<not> failed t)
                      (List.map_filter crowdedSuggestors ([phonex, soundex2] @ []))))
                (nat FINAL_SUGGESTION_LIMIT))"
    by blast
  then have c: "getAllSuggestionsFor toyPlatform ([phonex, soundex2] @ metaphone # [])
        crowdedSuggestors ''zz'' = Some [''zz'', ''za'', ''zb'', ''zc'', ''zzz'', ''yz'', ''zd'']"
    using crowded_lists crowded_spec by simp
  from a crowded_lists e d c show ?thesis by blast
qed

text \<open>
  Claim C10. The bounds of \<^verbatim>\<open>getAllSuggestions\<close> are the constants of the file: what it
  returns has at most 7 words and is the ranking of the lists that \<^verbatim>\<open>suggestMatches\<close>
  gives with the per-method limit 5; and it returns once every active searcher has
  settled.
\<close>

theorem getAllSuggestions_fixed_limits:
  "(\<forall>r. getAllSuggestions P suggestors query = Some r \<longrightarrow>
        length r \<le> 7
      \<and> r = rankSuggestions P query
              (concat (map (\<lambda>s. if failed s then [] else suggestMatches P s query 5)
                         (List.map_filter suggestors ACTIVE_TALISMAN_ALGORITHMS))))
   \<and> (list_all settledInit (List.map_filter suggestors ACTIVE_TALISMAN_ALGORITHMS) \<longrightarrow>
        (\<exists>r. getAllSuggestions P suggestors query = Some r))"
proof -
  have "(\<lambda>s. if failed s then [] else suggestMatches P s query 5) = candidateList P query"
    by (simp add: candidateList_def SUGGESTIONS_PER_METHOD_def fun_eq_iff)
  then show ?thesis
    by (auto simp: getAllSuggestions_def getAllSuggestionsFor_char length_rankSuggestions
             list_all_iff split: if_splits)
qed


theorem getAllSuggestions_fixed_limits_witness:
  "list_all settledInit (List.map_filter toySuggestors ACTIVE_TALISMAN_ALGORITHMS)
   \<and> getAllSuggestions toyPlatform toySuggestors ''chat'' = Some [''chat'', ''shat'', ''chatte'']
   \<and> length [''chat'', ''shat'', ''chatte''] \<le> 7
   \<and> [''chat'', ''shat'', ''chatte''] = rankSuggestions toyPlatform ''chat''
        (concat (map (\<lambda>s. if failed s then [] else suggestMatches toyPlatform s ''chat'' 5)
                   (List.map_filter toySuggestors ACTIVE_TALISMAN_ALGORITHMS)))"
proof -
  from getAllSuggestions_fixed_limits [of toyPlatform toySuggestors "''chat''"]
    toy_getAllSuggestions
  have "length [''chat'', ''shat'', ''chatte''] \<le> 7
   \<and> [''chat'', ''shat'', ''chatte''] = rankSuggestions toyPlatform ''chat''
        (concat (map (\<lambda>s. if failed s then [] else suggestMatches toyPlatform s ''chat'' 5)
                   (List.map_filter toySuggestors ACTIVE_TALISMAN_ALGORITHMS)))"
    by blast
  with toy_settled toy_getAllSuggestions show ?thesis by blast
qed

subsection \<open>The build\<close>

lemma pending_Nil [simp]: "pending [] c = []"
  by (simp add: pending_def)

lemma pending_Cons [simp]:
  "pending ((k, ws) # b) c = (if k = c then ws @ pending b c else pending b c)"
  by (simp add: pending_def)

lemma pending_batch_add_same:
  "set (pending (batch_add k w b) k) = insert w (set (pending b k))"
  by (induction k w b rule: batch_add.induct) auto

lemma pending_batch_add_other:
  "c \<noteq> k \<Longrightarrow> pending (batch_add k w b) c = pending b c"
  by (induction k w b rule: batch_add.induct) auto

lemma set_pending_batch_add:
  "set (pending (batch_add k w b) c) =
     (if c = k then insert w (set (pending b c)) else set (pending b c))"
  by (simp add: pending_batch_add_same pending_batch_add_other)

lemma writeEntries_ok:
  "set (words_of (writeEntries b st) c) = set (words_of st c) \<union> set (pending b c)"
  by (induction b arbitrary: st) (auto simp: words_of_mergeWords_set split: if_splits)

lemma writeBatch_ok:
  "set (words_of (writeBatch (\<lambda>k. False) b st) c) = set (words_of st c) \<union> set (pending b c)"
  by (simp add: writeBatch_def writeEntries_ok list_ex_iff)

lemma writeBatch_sub:
  "set (words_of (writeBatch f b st) c) \<subseteq> set (words_of st c) \<union> set (pending b c)"
  by (simp add: writeBatch_def writeEntries_ok)

lemma held_batch_add:
  "held (batch_add k w b, st, n) c = held (b, st, n) c \<union> (if c = k then {w} else {})"
  by (auto simp: held_def set_pending_batch_add)

lemma held_flush_ok:
  "held ([], writeBatch (\<lambda>k. False) b st, m) c = held (b, st, n) c"
  by (simp add: held_def writeBatch_ok)

lemma held_flush_sub:
  "held ([], writeBatch f b st, m) c \<subseteq> held (b, st, n) c"
  using writeBatch_sub [of f b st c] by (simp add: held_def)

lemma surfaceWords_single:
  "set (surfaceWords P enc [word] c) =
     (if trim P word \<noteq> [] \<and> enc (toLowerCase P (trim P word)) = Code c
      then {trim P word} else {})"
  by (simp add: surfaceWords_def)

lemma loopBody_cases:
  obtains (skip) "loopBody P enc bs wfail (b, st, n) word = (b, st, n)"
      "trim P word = [] \<or> enc (toLowerCase P (trim P word)) = Throws
         \<or> enc (toLowerCase P (trim P word)) = NotAString"
  | (add) key where "enc (toLowerCase P (trim P word)) = Code key" "trim P word \<noteq> []"
      "loopBody P enc bs wfail (b, st, n) word = (batch_add key (trim P word) b, st, n)"
  | (flush) key where "enc (toLowerCase P (trim P word)) = Code key" "trim P word \<noteq> []"
      "loopBody P enc bs wfail (b, st, n) word =
         ([], writeBatch (wfail n) (batch_add key (trim P word) b) st, Suc n)"
proof (cases "trim P word = []")
  case True
  then show ?thesis using skip by (simp add: loopBody_def)
next
  case False
  show ?thesis
  proof (cases "enc (toLowerCase P (trim P word))")
    case (Code key)
    show ?thesis
    proof (cases "key \<noteq> [] \<and> length (batch_add key (trim P word) b) \<ge> bs")
      case True
      then show ?thesis using flush [of key] Code False by (simp add: loopBody_def Let_def)
    next
      case False
      then show ?thesis using add [of key] Code \<open>trim P word \<noteq> []\<close>
        by (auto simp: loopBody_def Let_def)
    qed
  next
    case NotAString
    then show ?thesis using skip False by (simp add: loopBody_def)
  next
    case Throws
    then show ?thesis using skip False by (simp add: loopBody_def)
  qed
qed

lemma held_loopBody_ok:
  assumes "\<forall>n k. \<not> wfail n k"
  shows "held (loopBody P enc bs wfail acc word) c =
           held acc c \<union> set (surfaceWords P enc [word] c)"
proof -
  obtain b st n where acc: "acc = (b, st, n)" by (cases acc)
  have nf: "wfail n = (\<lambda>k. False)" using assms by auto
  show ?thesis
  proof (cases rule: loopBody_cases [of P enc bs wfail b st n word])
    case skip
    then show ?thesis by (auto simp: acc surfaceWords_single)
  next
    case (add key)
    then show ?thesis by (auto simp: acc surfaceWords_single held_batch_add)
  next
    case (flush key)
    then show ?thesis
      using held_flush_ok [of "batch_add key (trim P word) b" st "Suc n" c n]
      by (auto simp: acc nf surfaceWords_single held_batch_add)
  qed
qed

lemma held_loopBody_sub:
  "held (loopBody P enc bs wfail acc word) c \<subseteq> held acc c \<union> set (surfaceWords P enc [word] c)"
proof -
  obtain b st n where acc: "acc = (b, st, n)" by (cases acc)
  show ?thesis
  proof (cases rule: loopBody_cases [of P enc bs wfail b st n word])
    case skip
    then show ?thesis by (auto simp: acc)
  next
    case (add key)
    then show ?thesis by (auto simp: acc surfaceWords_single held_batch_add)
  next
    case (flush key)
    then show ?thesis
      using held_flush_sub [of "wfail n" "batch_add key (trim P word) b" st "Suc n" c n]
      by (auto simp: acc surfaceWords_single held_batch_add split: if_splits)
  qed
qed

lemma surfaceWords_append:
  "surfaceWords P enc (xs @ ys) c = surfaceWords P enc xs c @ surfaceWords P enc ys c"
  by (simp add: surfaceWords_def)

lemma held_buildLoop_ok:
  assumes "\<forall>n k. \<not> wfail n k"
  shows "held (buildLoop P enc bs wfail ws acc) c = held acc c \<union> set (surfaceWords P enc ws c)"
proof (induction ws rule: rev_induct)
  case Nil
  then show ?case by (simp add: buildLoop_def surfaceWords_def)
next
  case (snoc w ws)
  then show ?case
    using held_loopBody_ok [OF assms, of P enc bs "buildLoop P enc bs wfail ws acc" w c]
    by (simp add: buildLoop_def surfaceWords_append Un_assoc)
qed

lemma held_buildLoop_sub:
  "held (buildLoop P enc bs wfail ws acc) c \<subseteq> held acc c \<union> set (surfaceWords P enc ws c)"
proof (induction ws rule: rev_induct)
  case Nil
  then show ?case by (simp add: buildLoop_def surfaceWords_def)
next
  case (snoc w ws)
  then show ?case
    using held_loopBody_sub [of P enc bs wfail "buildLoop P enc bs wfail ws acc" w c]
    by (auto simp: buildLoop_def surfaceWords_append)
qed

lemma finalFlush_ok:
  "set (words_of (finalFlush (\<lambda>n k. False) acc) c) = held acc c"
  by (cases acc) (auto simp: finalFlush_def held_def writeBatch_ok)

lemma finalFlush_sub:
  "set (words_of (finalFlush wfail acc) c) \<subseteq> held acc c"
proof -
  obtain b st n where acc: "acc = (b, st, n)" by (cases acc)
  show ?thesis
    using writeBatch_sub [of "wfail n" b st c] by (auto simp: acc finalFlush_def held_def)
qed


lemma fst_batch_add: "fst ` set (batch_add k w b) = insert k (fst ` set b)"
  by (induction k w b rule: batch_add.induct) auto

lemma batch_ok_add: "batch_ok b \<Longrightarrow> batch_ok (batch_add k w b)"
proof (induction k w b rule: batch_add.induct)
  case (1 key tw)
  then show ?case by (simp add: batch_ok_def)
next
  case (2 key tw k ws b)
  show ?case
  proof (cases "k = key")
    case True
    then show ?thesis using "2.prems" by (auto simp: batch_ok_def)
  next
    case False
    from "2.prems" have "batch_ok b" by (simp add: batch_ok_def)
    with False have ih: "batch_ok (batch_add key tw b)" by (simp add: "2.IH")
    have "k \<notin> fst ` set (batch_add key tw b)"
      using "2.prems" False by (simp add: fst_batch_add batch_ok_def)
    with ih False "2.prems" show ?thesis
      by (simp add: batch_ok_def)
  qed
qed

lemma distinct_writeEntries:
  "distinct (words_of st c) \<Longrightarrow> \<forall>e \<in> set b. distinct (snd e)
   \<Longrightarrow> distinct (words_of (writeEntries b st) c)"
proof (induction b arbitrary: st)
  case Nil
  then show ?case by simp
next
  case (Cons e b)
  obtain k ws where e: "e = (k, ws)" by (cases e)
  have "distinct (words_of (mergeWords st k ws) c)"
    using Cons.prems
    by (auto simp: e words_of_def mergeWords_def split: option.splits)
  moreover have "\<forall>e \<in> set b. distinct (snd e)" using Cons.prems(2) by simp
  ultimately show ?case
    using Cons.IH by (simp add: e)
qed

lemma distinct_writeBatch:
  "distinct (words_of st c) \<Longrightarrow> batch_ok b \<Longrightarrow> distinct (words_of (writeBatch f b st) c)"
  by (simp add: writeBatch_def batch_ok_def distinct_writeEntries)

lemma loopBody_distinct:
  assumes "distinct (words_of (fst (snd acc)) c)" "batch_ok (fst acc)"
  shows "distinct (words_of (fst (snd (loopBody P enc bs wfail acc word))) c)
       \<and> batch_ok (fst (loopBody P enc bs wfail acc word))"
proof -
  obtain b st n where acc: "acc = (b, st, n)" by (cases acc)
  show ?thesis
  proof (cases rule: loopBody_cases [of P enc bs wfail b st n word])
    case skip
    then show ?thesis using assms by (simp add: acc)
  next
    case (add key)
    then show ?thesis using assms by (simp add: acc batch_ok_add)
  next
    case (flush key)
    then show ?thesis
      using assms by (simp add: acc batch_ok_add distinct_writeBatch) (simp add: batch_ok_def)
  qed
qed

lemma buildLoop_distinct:
  assumes "distinct (words_of (fst (snd acc)) c)" "batch_ok (fst acc)"
  shows "distinct (words_of (fst (snd (buildLoop P enc bs wfail ws acc))) c)
       \<and> batch_ok (fst (buildLoop P enc bs wfail ws acc))"
proof (induction ws rule: rev_induct)
  case Nil
  then show ?case using assms by (simp add: buildLoop_def)
next
  case (snoc w ws)
  then show ?case
    using loopBody_distinct [of "buildLoop P enc bs wfail ws acc" c P enc bs wfail w]
    by (simp add: buildLoop_def)
qed

lemma finalFlush_distinct:
  assumes "distinct (words_of (fst (snd acc)) c)" "batch_ok (fst acc)"
  shows "distinct (words_of (finalFlush wfail acc) c)"
  using assms by (cases acc) (auto simp: finalFlush_def distinct_writeBatch)

lemma held_start: "held ([], st, 0) c = set (words_of st c)"
  by (simp add: held_def)

lemma buildIndex_ok:
  assumes "loadWords outcome = Inr wordsArray" and "\<forall>n k. \<not> wfail n k"
  shows "\<exists>st'. buildIndex P enc bs outcome wfail True st = Inr st'
     \<and> (\<forall>c. set (words_of st' c) = set (words_of st c) \<union> set (surfaceWords P enc wordsArray c)
           \<and> (distinct (words_of st c) \<longrightarrow> distinct (words_of st' c)))"
proof -
  let ?acc = "buildLoop P enc bs wfail wordsArray ([], st, 0)"
  have nf: "wfail = (\<lambda>n k. False)" using assms(2) by (simp add: fun_eq_iff)
  have b: "buildIndex P enc bs outcome wfail True st = Inr (finalFlush wfail ?acc)"
    using assms(1) by (simp add: buildIndex_unfold)
  have "set (words_of (finalFlush wfail ?acc) c)
          = set (words_of st c) \<union> set (surfaceWords P enc wordsArray c)" for c
    using held_buildLoop_ok [OF assms(2), of P enc bs wordsArray "([], st, 0)" c]
    by (simp add: nf finalFlush_ok held_start)
  moreover have "distinct (words_of st c) \<longrightarrow> distinct (words_of (finalFlush wfail ?acc) c)" for c
    using buildLoop_distinct [of "([], st, 0)" c P enc bs wfail wordsArray]
      finalFlush_distinct [of ?acc c wfail]
    by (simp add: batch_ok_def)
  ultimately show ?thesis using b by simp
qed

lemma buildIndex_sub:
  assumes "buildIndex P enc bs outcome wfail dbOpen st = Inr st'"
  shows "\<exists>wordsArray. loadWords outcome = Inr wordsArray \<and>
           set (words_of st' c) \<subseteq> set (words_of st c) \<union> set (surfaceWords P enc wordsArray c)"
proof -
  from assms obtain wordsArray where l: "loadWords outcome = Inr wordsArray"
    and st': "st' = finalFlush wfail (buildLoop P enc bs wfail wordsArray ([], st, 0))"
    by (auto simp: buildIndex_unfold split: if_splits sum.splits)
  have "set (words_of st' c) \<subseteq> held (buildLoop P enc bs wfail wordsArray ([], st, 0)) c"
    unfolding st' by (rule finalFlush_sub)
  also have "\<dots> \<subseteq> held ([], st, 0) c \<union> set (surfaceWords P enc wordsArray c)"
    by (rule held_buildLoop_sub)
  finally show ?thesis using l by (auto simp: held_start)
qed

text \<open>
  Claim C3, as amended. After a complete build (the word list loaded, no bucket write
  failed) the bucket of every code \<open>c\<close> holds the words stored before the build (none
  on a fresh database) and exactly the trimmed source words, in their original casing,
  whose lower-cased form the encoder sends to \<open>c\<close>, each of them once by exact string
  identity. So a word that is empty after \<^verbatim>\<open>trim\<close>, and a word whose encoding throws,
  is added to no bucket.
\<close>

theorem build_files_surface_forms:
  assumes "loadWords outcome = Inr wordsArray" and "\<forall>n k. \<not> wfail n k"
  shows "\<exists>st'. buildAndStorePhoneticIndex P enc outcome wfail True st = Inr st'
     \<and> (\<forall>c. set (words_of st' c) = set (words_of st c) \<union> set (surfaceWords P enc wordsArray c)
           \<and> (distinct (words_of st c) \<longrightarrow> distinct (words_of st' c)))"
  unfolding buildAndStorePhoneticIndex_def using assms by (rule buildIndex_ok)

lemma toy_bucket:
  "words_of (phoneticMapStore (idb (builtSearcher phonex [''Chat'', ''chat'']))) ''X1''
     = [''Chat'', ''chat'']"
  by (simp add: toy_defs)

lemma toy_spec_bucket:
  "spec_bucket toyPlatform toyEncoder [''Chat'', ''chat''] ''X1'' = [''chat'', ''chat'']"
  by (simp add: toy_defs spec_bucket_def)

text \<open>
  Claim C3 as stated fails: from the word list \<open>Chat\<close>, \<open>chat\<close> the bucket of \<open>X1\<close>
  is \<open>Chat\<close>, \<open>chat\<close>. It is not the set of normalized words, which holds \<open>chat\<close>
  only, and it is not deduplicated up to case.
\<close>

theorem build_files_normalized_words_counterexample:
  "words_of (phoneticMapStore (idb (builtSearcher phonex [''Chat'', ''chat'']))) ''X1''
     = [''Chat'', ''chat'']
   \<and> spec_bucket toyPlatform toyEncoder [''Chat'', ''chat''] ''X1'' = [''chat'', ''chat'']
   \<and> set (words_of (phoneticMapStore (idb (builtSearcher phonex [''Chat'', ''chat'']))) ''X1'')
       \<noteq> set (spec_bucket toyPlatform toyEncoder [''Chat'', ''chat''] ''X1'')
   \<and> \<not> distinct (map (toLowerCase toyPlatform)
          (words_of (phoneticMapStore (idb (builtSearcher phonex [''Chat'', ''chat'']))) ''X1''))"
  by (simp add: toy_bucket toy_spec_bucket) (simp add: toy_defs)

theorem build_files_surface_forms_witness:
  "loadWords (Response True 200 (JsonArray [''Chat'', '' chat '', ''boom'', ''  '', ''cat'']))
     = Inr [''Chat'', '' chat '', ''boom'', ''  '', ''cat'']
   \<and> (\<exists>st'. buildAndStorePhoneticIndex toyPlatform toyEncoder
               (Response True 200 (JsonArray [''Chat'', '' chat '', ''boom'', ''  '', ''cat'']))
               (\<lambda>n k. False) True Map.empty = Inr st'
          \<and> set (words_of st' ''X1'') = {''Chat'', ''chat''}
          \<and> set (words_of st' ''X2'') = {''cat''}
          \<and> distinct (words_of st' ''X1''))"
proof -
  let ?ws = "[''Chat'', '' chat '', ''boom'', ''  '', ''cat'']"
  have l: "loadWords (Response True 200 (JsonArray ?ws)) = Inr ?ws" by simp
  have nf: "\<forall>n k. \<not> (\<lambda>n k. False) n k" by simp
  have e: "words_of Map.empty c = []" for c by (simp add: words_of_def)
  have x1: "set (surfaceWords toyPlatform toyEncoder ?ws ''X1'') = {''Chat'', ''chat''}"
    by (simp add: surfaceWords_def toy_defs)
  have x2: "set (surfaceWords toyPlatform toyEncoder ?ws ''X2'') = {''cat''}"
    by (simp add: surfaceWords_def toy_defs)
  from build_files_surface_forms [OF l nf, of toyPlatform toyEncoder Map.empty]
  obtain st' where b: "buildAndStorePhoneticIndex toyPlatform toyEncoder
               (Response True 200 (JsonArray ?ws)) (\<lambda>n k. False) True Map.empty = Inr st'"
    and c: "\<forall>c. set (words_of st' c)
                 = set (words_of Map.empty c) \<union> set (surfaceWords toyPlatform toyEncoder ?ws c)
               \<and> (distinct (words_of Map.empty c) \<longrightarrow> distinct (words_of st' c))"
    by blast
  from c have "set (words_of st' ''X1'') = {''Chat'', ''chat''}"
    and "set (words_of st' ''X2'') = {''cat''}" and "distinct (words_of st' ''X1'')"
    by (simp_all add: e x1 x2)
  with l b show ?thesis by blast
qed

subsection \<open>Initialisation\<close>

lemma tryInitialize_flag:
  "initialized (idb (snd (tryInitialize P env s))) =
     (initialized (idb s) \<or>
      (\<not> openFails env \<and> \<not> checkFails env \<and> (\<exists>ws. loadWords (fetched env) = Inr ws)
         \<and> \<not> markFails env))"
  by (auto simp: tryInitialize_unfold openDatabase_def checkIfInitialized_def markAsInitialized_def
        buildAndStorePhoneticIndex_def buildIndex_unfold Let_def split: sum.splits)

lemma idb_doInitialize_async:
  "idb (doInitialize_async P env s) = idb (snd (tryInitialize P env s))"
  by (simp add: doInitialize_async_def split: prod.splits option.splits)

lemma tryInitialize_store:
  assumes "\<not> initialized (idb s)" "initialized (idb (snd (tryInitialize P env s)))"
  shows "\<exists>ws. loadWords (fetched env) = Inr ws \<and>
           phoneticMapStore (idb (snd (tryInitialize P env s))) =
             finalFlush (writeFails env)
               (buildLoop P (activeAlgorithm P s) batchSize (writeFails env) ws
                  ([], phoneticMapStore (idb s), 0))"
  using assms
  by (auto simp: tryInitialize_unfold openDatabase_def checkIfInitialized_def markAsInitialized_def
        buildAndStorePhoneticIndex_def buildIndex_unfold Let_def activeAlgorithm_def
        split: sum.splits if_splits)

lemma restart_builds:
  assumes "\<not> initialized d" "\<not> openFails env" "\<not> checkFails env"
  shows "LogBuilding \<in> set (console (doInitialize_async P env (new_PhoneticSearcher a d)))"
  using assms
  by (auto simp: new_PhoneticSearcher_fields doInitialize_async_def tryInitialize_unfold
        openDatabase_def checkIfInitialized_def markAsInitialized_def Let_def
        split: sum.splits option.splits prod.splits)

lemma run_journal:
  assumes "\<not> initialized d"
  shows "journal (doInitialize_async P env (new_PhoneticSearcher a d)) =
     (if openFails env \<or> checkFails env then []
      else case buildIndexStores P (algorithmMap P a) batchSize (fetched env) (writeFails env)
                  True (phoneticMapStore d) of
             Inl e \<Rightarrow> []
           | Inr stores \<Rightarrow>
               map (\<lambda>st. d\<lparr>phoneticMapStore := st\<rparr>) stores
               @ (if markFails env then []
                  else [d\<lparr>phoneticMapStore := last stores, initialized := True\<rparr>]))"
  using assms buildIndexStores_cases [of P "algorithmMap P a" batchSize "fetched env"
      "writeFails env" True "phoneticMapStore d"]
  by (auto simp: doInitialize_async_def tryInitialize_unfold new_PhoneticSearcher_fields
        openDatabase_def checkIfInitialized_def markAsInitialized_def activeAlgorithm_def
        buildAndStorePhoneticIndex_def Let_def split: sum.splits)

lemma run_idb:
  assumes "\<not> initialized d"
  shows "idb (doInitialize_async P env (new_PhoneticSearcher a d)) =
     (if openFails env \<or> checkFails env then d
      else case buildIndexStores P (algorithmMap P a) batchSize (fetched env) (writeFails env)
                  True (phoneticMapStore d) of
             Inl e \<Rightarrow> d
           | Inr stores \<Rightarrow>
               (if markFails env then d\<lparr>phoneticMapStore := last stores\<rparr>
                else d\<lparr>phoneticMapStore := last stores, initialized := True\<rparr>))"
  using assms buildIndexStores_cases [of P "algorithmMap P a" batchSize "fetched env"
      "writeFails env" True "phoneticMapStore d"]
  by (auto simp: doInitialize_async_def tryInitialize_unfold new_PhoneticSearcher_fields
        openDatabase_def checkIfInitialized_def markAsInitialized_def activeAlgorithm_def
        buildAndStorePhoneticIndex_def Let_def split: sum.splits)

lemma buildIndexStores_Inl:
  "buildIndexStores P enc bs outcome wfail True st = Inl e \<longleftrightarrow> loadWords outcome = Inl e"
  by (simp add: buildIndexStores_def split: sum.splits)

lemma buildIndexStores_Inr:
  "buildIndexStores P enc bs outcome wfail True st = Inr stores \<longleftrightarrow>
     (\<exists>ws. loadWords outcome = Inr ws \<and>
        stores = loopStores P enc bs wfail ws ([], st, 0)
                   @ [finalFlush wfail (buildLoop P enc bs wfail ws ([], st, 0))])"
  by (auto simp: buildIndexStores_def split: sum.splits)

lemma buildLoop_Cons:
  "buildLoop P enc bs wfail (w # ws) acc = buildLoop P enc bs wfail ws (loopBody P enc bs wfail acc w)"
  by (simp add: buildLoop_def)

lemma loopStores_prefix:
  "n \<le> length ws \<Longrightarrow>
     fst (snd (buildLoop P enc bs wfail (take n ws) acc))
       \<in> set (fst (snd acc) # loopStores P enc bs wfail ws acc)"
proof (induction ws arbitrary: acc n)
  case Nil
  then show ?case by (simp add: buildLoop_def)
next
  case (Cons w ws)
  show ?case
  proof (cases n)
    case 0
    then show ?thesis by (simp add: buildLoop_def)
  next
    case (Suc m)
    with Cons.prems have "m \<le> length ws" by simp
    from Cons.IH [OF this, of "loopBody P enc bs wfail acc w"] Suc
    show ?thesis by (auto simp: buildLoop_Cons Let_def)
  qed
qed

lemma database_store_same: "d\<lparr>phoneticMapStore := phoneticMapStore d\<rparr> = d"
  by simp

lemma interruptedBuild_in_stores:
  assumes "n \<le> length ws"
  shows "interruptedBuild P enc wfail ws n d
           \<in> set (d # map (\<lambda>st. d\<lparr>phoneticMapStore := st\<rparr>)
                        (loopStores P enc batchSize wfail ws ([], phoneticMapStore d, 0)))"
proof -
  from loopStores_prefix [OF assms, of P enc batchSize wfail "([], phoneticMapStore d, 0)"]
  have "fst (snd (buildLoop P enc batchSize wfail (take n ws) ([], phoneticMapStore d, 0)))
          = phoneticMapStore d
      \<or> fst (snd (buildLoop P enc batchSize wfail (take n ws) ([], phoneticMapStore d, 0)))
          \<in> set (loopStores P enc batchSize wfail ws ([], phoneticMapStore d, 0))"
    by simp
  then show ?thesis
  proof
    assume "fst (snd (buildLoop P enc batchSize wfail (take n ws) ([], phoneticMapStore d, 0)))
          = phoneticMapStore d"
    then show ?thesis by (simp add: interruptedBuild_def)
  next
    assume "fst (snd (buildLoop P enc batchSize wfail (take n ws) ([], phoneticMapStore d, 0)))
          \<in> set (loopStores P enc batchSize wfail ws ([], phoneticMapStore d, 0))"
    then show ?thesis by (simp add: interruptedBuild_def)
  qed
qed

text \<open>
  Claim C2, as amended. Take a run of \<^verbatim>\<open>_doInitialize\<close> on a database without the built
  flag. At every moment before its last write the database has no flag: if the word
  source cannot be loaded nothing is written at all, and a process that stops during the
  build, after any number of words of the loop or after the final flush, leaves a
  database without the flag, on which the next start runs the build again. The flag is
  set exactly when the database opened, the flag was read, the word list was loaded and
  \<^verbatim>\<open>markAsInitialized\<close> succeeded, and then it is the last write of the run:
  \<^verbatim>\<open>buildAndStorePhoneticIndex\<close> had returned, and the store it left was in the database
  before the flag was written. The failures of bucket writes play no part in it.
\<close>

theorem built_flag_set_after_build_returns:
  assumes "\<not> initialized d"
  shows "idb (doInitialize_async P env (new_PhoneticSearcher a d))
           = last (d # journal (doInitialize_async P env (new_PhoneticSearcher a d)))
   \<and> list_all (\<lambda>x. \<not> initialized x)
        (butlast (d # journal (doInitialize_async P env (new_PhoneticSearcher a d))))
   \<and> initialized (idb (doInitialize_async P env (new_PhoneticSearcher a d)))
        = (\<not> openFails env \<and> \<not> checkFails env \<and> (\<exists>ws. loadWords (fetched env) = Inr ws)
             \<and> \<not> markFails env)
   \<and> (initialized (idb (doInitialize_async P env (new_PhoneticSearcher a d))) \<longrightarrow>
        buildAndStorePhoneticIndex P (algorithmMap P a) (fetched env) (writeFails env) True
            (phoneticMapStore d)
          = Inr (phoneticMapStore (idb (doInitialize_async P env (new_PhoneticSearcher a d))))
        \<and> phoneticMapStore
            (last (butlast (d # journal (doInitialize_async P env (new_PhoneticSearcher a d)))))
          = phoneticMapStore (idb (doInitialize_async P env (new_PhoneticSearcher a d))))
   \<and> (\<forall>ws n. \<not> openFails env \<and> \<not> checkFails env \<and> loadWords (fetched env) = Inr ws
          \<and> n \<le> length ws \<longrightarrow>
        interruptedBuild P (algorithmMap P a) (writeFails env) ws n d
          \<in> set (butlast (d # journal (doInitialize_async P env (new_PhoneticSearcher a d)))))
   \<and> (\<forall>x \<in> set (butlast (d # journal (doInitialize_async P env (new_PhoneticSearcher a d)))).
        \<not> openFails env' \<and> \<not> checkFails env' \<longrightarrow>
        LogBuilding \<in> set (console (doInitialize_async P env' (new_PhoneticSearcher a' x))))"
proof -
  let ?s = "doInitialize_async P env (new_PhoneticSearcher a d)"
  let ?B = "buildIndexStores P (algorithmMap P a) batchSize (fetched env) (writeFails env)
              True (phoneticMapStore d)"
  note J = run_journal [OF assms, of P env a]
  note D = run_idb [OF assms, of P env a]
  have unflagged: "\<forall>x \<in> set (d # map (\<lambda>st. d\<lparr>phoneticMapStore := st\<rparr>) stores). \<not> initialized x"
    for stores
    using assms by auto
  have flags: "list_all (\<lambda>x. \<not> initialized x) (butlast (d # journal ?s))"
  proof (cases "openFails env \<or> checkFails env")
    case True
    then show ?thesis by (simp add: J)
  next
    case False
    show ?thesis
    proof (cases ?B)
      case (Inl e)
      with False show ?thesis by (simp add: J)
    next
      case (Inr stores)
      show ?thesis
      proof (cases "markFails env")
        case True
        have "set (butlast (d # map (\<lambda>st. d\<lparr>phoneticMapStore := st\<rparr>) stores))
                \<subseteq> set (d # map (\<lambda>st. d\<lparr>phoneticMapStore := st\<rparr>) stores)"
          by (meson in_set_butlastD subsetI)
        with unflagged [of stores] have "\<forall>x \<in> set (butlast (d # map (\<lambda>st. d\<lparr>phoneticMapStore := st\<rparr>) stores)).
            \<not> initialized x"
          by blast
        with False Inr True show ?thesis
          by (simp add: J list_all_iff)
      next
        case mf: False
        have "butlast (d # map (\<lambda>st. d\<lparr>phoneticMapStore := st\<rparr>) stores
                @ [d\<lparr>phoneticMapStore := last stores, initialized := True\<rparr>])
              = d # map (\<lambda>st. d\<lparr>phoneticMapStore := st\<rparr>) stores"
          by (simp add: butlast_append)
        with unflagged [of stores] False Inr mf show ?thesis
          by (simp add: J list_all_iff)
      qed
    qed
  qed
  have restart: "\<forall>x \<in> set (butlast (d # journal ?s)).
        \<not> openFails env' \<and> \<not> checkFails env' \<longrightarrow>
        LogBuilding \<in> set (console (doInitialize_async P env' (new_PhoneticSearcher a' x)))"
    using flags by (auto simp: list_all_iff intro: restart_builds)
  consider (early) "openFails env \<or> checkFails env"
    | (nolist) e where "\<not> (openFails env \<or> checkFails env)" "?B = Inl e"
    | (built) stores where "\<not> (openFails env \<or> checkFails env)" "?B = Inr stores"
    by (cases ?B) auto
  then have rest: "idb ?s = last (d # journal ?s)
     \<and> initialized (idb ?s)
        = (\<not> openFails env \<and> \<not> checkFails env \<and> (\<exists>ws. loadWords (fetched env) = Inr ws)
             \<and> \<not> markFails env)
     \<and> (initialized (idb ?s) \<longrightarrow>
          buildAndStorePhoneticIndex P (algorithmMap P a) (fetched env) (writeFails env) True
              (phoneticMapStore d) = Inr (phoneticMapStore (idb ?s))
          \<and> phoneticMapStore (last (butlast (d # journal ?s))) = phoneticMapStore (idb ?s))
     \<and> (\<forall>ws n. \<not> openFails env \<and> \<not> checkFails env \<and> loadWords (fetched env) = Inr ws
            \<and> n \<le> length ws \<longrightarrow>
          interruptedBuild P (algorithmMap P a) (writeFails env) ws n d
            \<in> set (butlast (d # journal ?s)))"
  proof cases
    case early
    then show ?thesis using assms by (auto simp: J D)
  next
    case (nolist e)
    then have "loadWords (fetched env) = Inl e" by (simp add: buildIndexStores_Inl)
    with nolist show ?thesis using assms by (auto simp: J D)
  next
    case (built stores)
    then obtain ws where ws: "loadWords (fetched env) = Inr ws"
      and st: "stores = loopStores P (algorithmMap P a) batchSize (writeFails env) ws
                   ([], phoneticMapStore d, 0)
                 @ [finalFlush (writeFails env)
                      (buildLoop P (algorithmMap P a) batchSize (writeFails env) ws
                         ([], phoneticMapStore d, 0))]"
      by (auto simp: buildIndexStores_Inr)
    have bi: "buildAndStorePhoneticIndex P (algorithmMap P a) (fetched env) (writeFails env) True
              (phoneticMapStore d) = Inr (last stores)"
      using ws st by (simp add: buildAndStorePhoneticIndex_def buildIndex_unfold)
    have ne: "stores \<noteq> []" using st by simp
    have ib: "interruptedBuild P (algorithmMap P a) (writeFails env) ws n d
            \<in> set (d # map (\<lambda>st. d\<lparr>phoneticMapStore := st\<rparr>) (butlast stores))"
      if "n \<le> length ws" for n
      using interruptedBuild_in_stores [OF that, of P "algorithmMap P a" "writeFails env" d]
      by (simp add: st butlast_append)
    let ?f = "\<lambda>st. d\<lparr>phoneticMapStore := st\<rparr>"
    have ib': "interruptedBuild P (algorithmMap P a) (writeFails env) ws n d
            \<in> set (d # map ?f stores)" if "n \<le> length ws" for n
      using ib [OF that] by (auto dest: in_set_butlastD)
    show ?thesis
    proof (cases "markFails env")
      case True
      have j: "journal ?s = map ?f stores" and i: "idb ?s = ?f (last stores)"
        using built True by (simp_all add: J D)
      have b: "butlast (d # journal ?s) = d # map ?f (butlast stores)"
        using ne by (simp add: j map_butlast)
      have l: "last (d # journal ?s) = ?f (last stores)"
        using ne by (simp add: j last_map)
      from True ws ib assms show ?thesis
        unfolding b l i by auto
    next
      case False
      have j: "journal ?s = map ?f stores
                  @ [d\<lparr>phoneticMapStore := last stores, initialized := True\<rparr>]"
        and i: "idb ?s = d\<lparr>phoneticMapStore := last stores, initialized := True\<rparr>"
        using built False by (simp_all add: J D)
      have b: "butlast (d # journal ?s) = d # map ?f stores"
        by (simp add: j butlast_append)
      have l: "last (d # journal ?s) = d\<lparr>phoneticMapStore := last stores, initialized := True\<rparr>"
        by (simp add: j)
      have lb: "last (d # map ?f stores) = ?f (last stores)"
        using ne by (simp add: last_map)
      from False built ws bi ib' show ?thesis
        unfolding b l i lb by auto
    qed
  qed
  with flags restart show ?thesis by blast
qed


lemma toy_failed_write:
  "initialized (idb (doInitialize_async toyPlatform (failingWrites [''chat''])
       (new_PhoneticSearcher phonex empty_database)))
   \<and> isReady (doInitialize_async toyPlatform (failingWrites [''chat''])
       (new_PhoneticSearcher phonex empty_database))
   \<and> phoneticMapStore (idb (doInitialize_async toyPlatform (failingWrites [''chat''])
       (new_PhoneticSearcher phonex empty_database))) ''X1'' = None"
  by (simp add: toy_defs)

text \<open>
  Claim C2 as stated fails: when the write of the only bucket fails, \<^verbatim>\<open>writeBatch\<close>
  catches and logs the error, the build returns normally and the flag is set, although
  the bucket of \<open>X1\<close> was never stored.
\<close>

theorem built_flag_after_failed_write_counterexample:
  "writeFails (failingWrites [''chat'']) 0 ''X1''
   \<and> toyEncoder (asciiLower (asciiTrim ''chat'')) = Code ''X1''
   \<and> \<not> initialized empty_database
   \<and> initialized (idb (doInitialize_async toyPlatform (failingWrites [''chat''])
       (new_PhoneticSearcher phonex empty_database)))
   \<and> phoneticMapStore (idb (doInitialize_async toyPlatform (failingWrites [''chat''])
       (new_PhoneticSearcher phonex empty_database))) ''X1'' = None"
  using toy_failed_write by (simp add: toy_defs)

lemma toy_journal:
  "map initialized (empty_database #
      journal (doInitialize_async toyPlatform (goodEnv [''chat'', ''cat''])
                 (new_PhoneticSearcher phonex empty_database)))
     = [False, False, False, False, True]
   \<and> \<not> initialized empty_database
   \<and> \<not> openFails (goodEnv [''chat'', ''cat'']) \<and> \<not> checkFails (goodEnv [''chat'', ''cat''])
   \<and> loadWords (fetched (goodEnv [''chat'', ''cat''])) = Inr [''chat'', ''cat'']
   \<and> initialized (idb (doInitialize_async toyPlatform (goodEnv [''chat'', ''cat''])
                 (new_PhoneticSearcher phonex empty_database)))"
  by (simp add: toy_defs)

theorem built_flag_set_after_build_returns_witness:
  "\<not> initialized empty_database
   \<and> map initialized (empty_database #
        journal (doInitialize_async toyPlatform (goodEnv [''chat'', ''cat''])
                   (new_PhoneticSearcher phonex empty_database)))
       = [False, False, False, False, True]
   \<and> initialized (idb (doInitialize_async toyPlatform (goodEnv [''chat'', ''cat''])
                 (new_PhoneticSearcher phonex empty_database)))
   \<and> buildAndStorePhoneticIndex toyPlatform (algorithmMap toyPlatform phonex)
        (fetched (goodEnv [''chat'', ''cat''])) (writeFails (goodEnv [''chat'', ''cat''])) True
        (phoneticMapStore empty_database)
       = Inr (phoneticMapStore (idb (doInitialize_async toyPlatform (goodEnv [''chat'', ''cat''])
                 (new_PhoneticSearcher phonex empty_database))))
   \<and> interruptedBuild toyPlatform (algorithmMap toyPlatform phonex)
        (writeFails (goodEnv [''chat'', ''cat''])) [''chat'', ''cat''] 1 empty_database
       \<in> set (butlast (empty_database #
            journal (doInitialize_async toyPlatform (goodEnv [''chat'', ''cat''])
                       (new_PhoneticSearcher phonex empty_database))))
   \<and> LogBuilding \<in> set (console (doInitialize_async toyPlatform (goodEnv [''chat'', ''cat''])
        (new_PhoneticSearcher phonex
           (interruptedBuild toyPlatform (algorithmMap toyPlatform phonex)
              (writeFails (goodEnv [''chat'', ''cat''])) [''chat'', ''cat''] 1 empty_database))))"
proof -
  let ?env = "goodEnv [''chat'', ''cat'']"
  let ?s = "doInitialize_async toyPlatform ?env (new_PhoneticSearcher phonex empty_database)"
  let ?i = "interruptedBuild toyPlatform (algorithmMap toyPlatform phonex)
              (writeFails ?env) [''chat'', ''cat''] 1 empty_database"
  have n: "\<not> initialized empty_database" using toy_journal by blast
  note t = built_flag_set_after_build_returns [OF n, of toyPlatform ?env phonex ?env phonex]
  have i: "initialized (idb ?s)" using toy_journal by blast
  from t i have b: "buildAndStorePhoneticIndex toyPlatform (algorithmMap toyPlatform phonex)
        (fetched ?env) (writeFails ?env) True (phoneticMapStore empty_database)
       = Inr (phoneticMapStore (idb ?s))"
    by blast
  have "\<not> openFails ?env \<and> \<not> checkFails ?env
      \<and> loadWords (fetched ?env) = Inr [''chat'', ''cat''] \<and> (1::nat) \<le> length [''chat'', ''cat'']"
    using toy_journal by simp
  with t have m: "?i \<in> set (butlast (empty_database # journal ?s))"
    by blast
  with t toy_journal have r: "LogBuilding \<in> set (console (doInitialize_async toyPlatform ?env
        (new_PhoneticSearcher phonex ?i)))"
    by blast
  from n toy_journal i b m r show ?thesis by blast
qed


lemma tryInitialize_source_error:
  assumes "loadWords (fetched env) = Inl e" "\<not> openFails env" "\<not> checkFails env"
    "\<not> initialized (idb s)"
  shows "tryInitialize P env s = (Some e, s\<lparr>db := True, console := console s @ [LogBuilding]\<rparr>)"
  using assms
  by (simp add: tryInitialize_unfold openDatabase_def checkIfInitialized_def
        buildAndStorePhoneticIndex_def buildIndex_unfold Let_def)

text \<open>
  Claim C7. When the word source cannot be fetched or parsed (\<^verbatim>\<open>fetch\<close> rejects, the
  response is not OK, the body is not JSON or not an array), the run on a database
  without the built flag writes nothing, leaves the flag false and the searcher not
  ready, and rejects the initialisation promise with that error; a later
  \<^verbatim>\<open>initialize()\<close> changes nothing and returns the same rejected promise, and the task
  of \<^verbatim>\<open>getAllSuggestions\<close> that awaits it is rejected with the error.
\<close>

theorem word_source_failure_propagates:
  assumes "loadWords (fetched env) = Inl e" and "\<not> openFails env" and "\<not> checkFails env"
    and "\<not> initialized d"
  shows "idb (doInitialize_async P env (new_PhoneticSearcher a d)) = d
    \<and> \<not> isReady (doInitialize_async P env (new_PhoneticSearcher a d))
    \<and> initializationPromise (doInitialize_async P env (new_PhoneticSearcher a d))
         = Some (Rejected e)
    \<and> initialize (doInitialize_async P env (new_PhoneticSearcher a d))
         = doInitialize_async P env (new_PhoneticSearcher a d)
    \<and> instanceTask P query (doInitialize_async P env (new_PhoneticSearcher a d))
         = Some (rejected e)
    \<and> loadWords FetchRejects = Inl NetworkError
    \<and> loadWords (Response False status body) = Inl (FetchFailed status)
    \<and> loadWords (Response True status JsonRejects) = Inl JSONSyntaxError
    \<and> loadWords (Response True status JsonNotArray) = Inl InvalidJSON"
proof -
  have "tryInitialize P env (new_PhoneticSearcher a d) =
          (Some e, (new_PhoneticSearcher a d)\<lparr>db := True,
             console := console (new_PhoneticSearcher a d) @ [LogBuilding]\<rparr>)"
    using assms by (intro tryInitialize_source_error) (simp_all add: new_PhoneticSearcher_fields)
  then show ?thesis
    by (simp add: doInitialize_async_def new_PhoneticSearcher_fields initialize_def
          instanceTask_def)
qed

theorem word_source_failure_propagates_witness:
  "loadWords (fetched ((goodEnv [])\<lparr>fetched := Response False 404 JsonNotArray\<rparr>))
     = Inl (FetchFailed 404)
   \<and> \<not> openFails ((goodEnv [])\<lparr>fetched := Response False 404 JsonNotArray\<rparr>)
   \<and> \<not> checkFails ((goodEnv [])\<lparr>fetched := Response False 404 JsonNotArray\<rparr>)
   \<and> \<not> initialized empty_database
   \<and> idb (doInitialize_async toyPlatform ((goodEnv [])\<lparr>fetched := Response False 404 JsonNotArray\<rparr>)
        (new_PhoneticSearcher phonex empty_database)) = empty_database
   \<and> initializationPromise
        (doInitialize_async toyPlatform ((goodEnv [])\<lparr>fetched := Response False 404 JsonNotArray\<rparr>)
           (new_PhoneticSearcher phonex empty_database)) = Some (Rejected (FetchFailed 404))"
proof -
  let ?env = "(goodEnv [])\<lparr>fetched := Response False 404 JsonNotArray\<rparr>"
  have a: "loadWords (fetched ?env) = Inl (FetchFailed 404)" by (simp add: goodEnv_def)
  have b: "\<not> openFails ?env" by (simp add: goodEnv_def)
  have c: "\<not> checkFails ?env" by (simp add: goodEnv_def)
  have d: "\<not> initialized empty_database" by (simp add: empty_database_def)
  from word_source_failure_propagates [OF a b c d, of toyPlatform phonex] a b c d
  show ?thesis by blast
qed

subsection \<open>One run per process\<close>

lemma settled_step: "settledInit s \<Longrightarrow> step P s ev = s"
  by (cases ev) (auto simp: settledInit_def initialize_def split: option.splits promise.splits)

lemma settled_run: "settledInit s \<Longrightarrow> run P s es = s"
  by (induction es) (simp_all add: run_def settled_step)

lemma settled_doInitialize_async: "settledInit (doInitialize_async P env s)"
  by (simp add: doInitialize_async_def settledInit_def split: prod.splits option.splits)

lemma run_from_pending:
  "initializationPromise s = Some Pending \<Longrightarrow>
     run P s es = (case firstSettle es of None \<Rightarrow> s | Some env \<Rightarrow> doInitialize_async P env s)"
proof (induction es rule: firstSettle.induct)
  case 1
  then show ?case by (simp add: run_def)
next
  case (2 es)
  then show ?case by (simp add: run_def initialize_def)
next
  case (3 env es)
  have "run P s (Settle env # es) = run P (doInitialize_async P env s) es"
    using 3 by (simp add: run_def)
  then show ?case
    by (simp add: settled_run settled_doInitialize_async)
qed

lemma console_tryInitialize:
  "count_list (console (snd (tryInitialize P env s))) LogBuilding
      \<le> Suc (count_list (console s) LogBuilding)
   \<and> count_list (console (snd (tryInitialize P env s))) LogStarting
      = count_list (console s) LogStarting"
  by (auto simp: tryInitialize_unfold openDatabase_def checkIfInitialized_def markAsInitialized_def
        Let_def split: sum.splits)

lemma console_doInitialize_async:
  "count_list (console (doInitialize_async P env s)) LogBuilding
      \<le> Suc (count_list (console s) LogBuilding)
   \<and> count_list (console (doInitialize_async P env s)) LogStarting
      = count_list (console s) LogStarting"
  using console_tryInitialize [of P env s]
  by (auto simp: doInitialize_async_def split: prod.splits option.splits)

text \<open>
  Claim C8. Whatever calls of \<^verbatim>\<open>initialize()\<close> and completions follow the constructor,
  the searcher is the constructed one while the first run is in flight and then the
  result of that single run: \<^verbatim>\<open>_doInitialize\<close> was started once, the build at most once,
  and one more call of \<^verbatim>\<open>initialize()\<close> changes nothing, so it returns the stored promise
  of the first run.
\<close>

theorem build_runs_once:
  "run P (new_PhoneticSearcher a d) es =
     (case firstSettle es of
        None \<Rightarrow> new_PhoneticSearcher a d
      | Some env \<Rightarrow> doInitialize_async P env (new_PhoneticSearcher a d))
   \<and> count_list (console (run P (new_PhoneticSearcher a d) es)) LogStarting = 1
   \<and> count_list (console (run P (new_PhoneticSearcher a d) es)) LogBuilding \<le> 1
   \<and> step P (run P (new_PhoneticSearcher a d) es) CallInitialize
        = run P (new_PhoneticSearcher a d) es"
proof -
  have p: "initializationPromise (new_PhoneticSearcher a d) = Some Pending"
    by (simp add: new_PhoneticSearcher_fields)
  note r = run_from_pending [OF p, of P es]
  have c0: "count_list (console (new_PhoneticSearcher a d)) LogStarting = 1"
    "count_list (console (new_PhoneticSearcher a d)) LogBuilding = 0"
    by (simp_all add: new_PhoneticSearcher_fields)
  show ?thesis
  proof (cases "firstSettle es")
    case None
    with r c0 p show ?thesis by (simp add: initialize_def)
  next
    case (Some env)
    with r have e: "run P (new_PhoneticSearcher a d) es
        = doInitialize_async P env (new_PhoneticSearcher a d)" by simp
    show ?thesis
      using console_doInitialize_async [of P env "new_PhoneticSearcher a d"] c0 Some
        settled_step [of "doInitialize_async P env (new_PhoneticSearcher a d)" P CallInitialize]
        settled_doInitialize_async [of P env "new_PhoneticSearcher a d"]
      by (simp add: e)
  qed
qed


subsection \<open>Provenance of the stored words\<close>

lemma surfaceWords_trimmed: "set (surfaceWords P enc ws c) \<subseteq> trim P ` set ws"
  by (auto simp: surfaceWords_def)

lemma tryInitialize_store_cases:
  "phoneticMapStore (idb (snd (tryInitialize P env s))) = phoneticMapStore (idb s)
   \<or> (\<exists>st'. buildAndStorePhoneticIndex P (activeAlgorithm P s) (fetched env) (writeFails env)
               True (phoneticMapStore (idb s)) = Inr st'
            \<and> phoneticMapStore (idb (snd (tryInitialize P env s))) = st')"
  by (auto simp: tryInitialize_unfold openDatabase_def checkIfInitialized_def markAsInitialized_def
        Let_def activeAlgorithm_def split: sum.splits)

lemma initialised_words:
  assumes "sourceIs ws (fetched env)"
  shows "set (words_of (phoneticMapStore (idb (doInitialize_async P env s))) c)
           \<subseteq> set (words_of (phoneticMapStore (idb s)) c) \<union> trim P ` set ws"
proof -
  from tryInitialize_store_cases [of P env s]
  show ?thesis
  proof
    assume "phoneticMapStore (idb (snd (tryInitialize P env s))) = phoneticMapStore (idb s)"
    then show ?thesis by (simp add: idb_doInitialize_async)
  next
    assume "\<exists>st'. buildAndStorePhoneticIndex P (activeAlgorithm P s) (fetched env) (writeFails env)
               True (phoneticMapStore (idb s)) = Inr st'
            \<and> phoneticMapStore (idb (snd (tryInitialize P env s))) = st'"
    then obtain st' where b: "buildIndex P (activeAlgorithm P s) batchSize (fetched env)
          (writeFails env) True (phoneticMapStore (idb s)) = Inr st'"
      and st': "phoneticMapStore (idb (snd (tryInitialize P env s))) = st'"
      by (auto simp: buildAndStorePhoneticIndex_def)
    from buildIndex_sub [OF b, of c] obtain wordsArray
      where l: "loadWords (fetched env) = Inr wordsArray"
        and sub: "set (words_of st' c) \<subseteq> set (words_of (phoneticMapStore (idb s)) c)
                    \<union> set (surfaceWords P (activeAlgorithm P s) wordsArray c)"
      by blast
    from l assms have "wordsArray = ws" by (simp add: sourceIs_def)
    with sub surfaceWords_trimmed [of P "activeAlgorithm P s" ws c] show ?thesis
      by (auto simp: idb_doInitialize_async st')
  qed
qed

lemma interrupted_words:
  "set (words_of (phoneticMapStore (interruptedBuild P enc wfail ws n d)) c)
     \<subseteq> set (words_of (phoneticMapStore d) c) \<union> trim P ` set ws"
proof -
  let ?acc = "buildLoop P enc batchSize wfail (take n ws) ([], phoneticMapStore d, 0)"
  have "set (words_of (fst (snd ?acc)) c) \<subseteq> held ?acc c"
    by (cases ?acc) (auto simp: held_def)
  also have "\<dots> \<subseteq> held ([], phoneticMapStore d, 0) c \<union> set (surfaceWords P enc (take n ws) c)"
    by (rule held_buildLoop_sub)
  also have "\<dots> \<subseteq> set (words_of (phoneticMapStore d) c) \<union> trim P ` set (take n ws)"
    using surfaceWords_trimmed [of P enc "take n ws" c] by (auto simp: held_start)
  also have "\<dots> \<subseteq> set (words_of (phoneticMapStore d) c) \<union> trim P ` set ws"
    using set_take_subset [of n ws] by auto
  finally show ?thesis by (simp add: interruptedBuild_def)
qed

lemma builtFrom_words:
  "builtFrom P ws d \<Longrightarrow> set (words_of (phoneticMapStore d) c) \<subseteq> trim P ` set ws"
proof (induction rule: builtFrom.induct)
  case fresh
  then show ?case by (simp add: empty_database_def words_of_def)
next
  case (initialised d env a)
  then show ?case
    using initialised_words [of ws env P "new_PhoneticSearcher a d" c]
    by (auto simp: new_PhoneticSearcher_fields)
next
  case (interrupted d enc wfail n)
  then show ?case
    using interrupted_words [of P enc wfail ws n d c] by auto
qed

lemma set_suggestMatches:
  "\<exists>k. set (suggestMatches P s query limit) \<subseteq> set (words_of (phoneticMapStore (idb s)) k)"
  using suggestMatches_cases [of P s query limit] set_slice0 [of limit]
  by (metis empty_subsetI set_empty2 set_sort)

lemma set_rankSuggestions: "set (rankSuggestions P query ws) \<subseteq> set ws"
proof (cases "trim P (toLowerCase P query) = []")
  case True
  then show ?thesis by (simp add: rankSuggestions_def)
next
  case False
  let ?d = "\<lambda>word. levenshtein P (trim P (toLowerCase P query)) (toLowerCase P word)"
  have "set (slice0 FINAL_SUGGESTION_LIMIT (sort_key ?d (from_set ws)))
          \<subseteq> set (sort_key ?d (from_set ws))"
    by (rule set_slice0)
  with False show ?thesis
    by (simp add: rankSuggestions_def Let_def sortByDistance_sort_key)
qed

lemma set_candidateList: "set (candidateList P query s) \<subseteq> set (suggestMatches P s query SUGGESTIONS_PER_METHOD)"
  by (simp add: candidateList_def)

lemma map_filter_mem: "s \<in> set (List.map_filter f xs) \<Longrightarrow> \<exists>a. f a = Some s"
  by (auto simp: List.map_filter_def)

text \<open>
  Claim C9. When the database of every searcher comes from the empty database by
  initialisation runs and interrupted builds on the word list \<open>ws\<close>, every word that
  \<^verbatim>\<open>suggestMatches\<close> returns, and every word that \<^verbatim>\<open>getAllSuggestions\<close> returns, is the
  trimmed form, in its original casing, of a word of \<open>ws\<close>.
\<close>

theorem suggestions_are_source_words:
  assumes "\<forall>a s. suggestors a = Some s \<longrightarrow> builtFrom P ws (idb s)"
  shows "(\<forall>a s. suggestors a = Some s \<longrightarrow>
            set (suggestMatches P s query limit) \<subseteq> trim P ` set ws)
       \<and> (\<forall>r. getAllSuggestionsFor P active suggestors query = Some r \<longrightarrow>
            set r \<subseteq> trim P ` set ws)"
proof -
  have one: "set (suggestMatches P s query lim) \<subseteq> trim P ` set ws"
    if "suggestors a = Some s" for a s lim
  proof -
    from that assms have "builtFrom P ws (idb s)" by blast
    then have "\<And>k. set (words_of (phoneticMapStore (idb s)) k) \<subseteq> trim P ` set ws"
      by (rule builtFrom_words)
    with set_suggestMatches [of P s query lim] show ?thesis by blast
  qed
  have all: "set r \<subseteq> trim P ` set ws"
    if r: "getAllSuggestionsFor P active suggestors query = Some r" for r
  proof -
    have "set r \<subseteq> set (concat (map (candidateList P query) (List.map_filter suggestors active)))"
      unfolding getAllSuggestionsFor_Some [OF r] by (rule set_rankSuggestions)
    also have "\<dots> \<subseteq> trim P ` set ws"
    proof
      fix w
      assume "w \<in> set (concat (map (candidateList P query) (List.map_filter suggestors active)))"
      then obtain s where s: "s \<in> set (List.map_filter suggestors active)"
        and w: "w \<in> set (candidateList P query s)" by auto
      from s obtain a where "suggestors a = Some s" by (auto dest: map_filter_mem)
      from one [OF this, of SUGGESTIONS_PER_METHOD] w set_candidateList [of P query s]
      show "w \<in> trim P ` set ws" by blast
    qed
    finally show ?thesis .
  qed
  from one all show ?thesis by blast
qed

lemma toy_builtFrom: "builtFrom toyPlatform toyWords (idb (builtSearcher a toyWords))"
  unfolding builtSearcher_def
  by (rule builtFrom.initialised [OF builtFrom.fresh]) (simp add: sourceIs_def goodEnv_def)

lemma toyTable_get:
  "getAllSuggestionsFor toyPlatform [phonex, soundex2] toyTable ''chat'' = Some [''Chat'', ''shat'']"
  by (simp add: toy_defs toyTable_def toyWords_def)

theorem suggestions_are_source_words_witness:
  "builtFrom toyPlatform toyWords (idb (builtSearcher phonex toyWords))
   \<and> builtFrom toyPlatform toyWords (idb (builtSearcher soundex2 toyWords))
   \<and> getAllSuggestionsFor toyPlatform [phonex, soundex2] toyTable ''chat''
       = Some [''Chat'', ''shat'']
   \<and> set [''Chat'', ''shat''] \<subseteq> trim toyPlatform ` set toyWords"
proof -
  have h: "\<forall>a s. toyTable a = Some s \<longrightarrow> builtFrom toyPlatform toyWords (idb s)"
    using toy_builtFrom by (auto simp: toyTable_def split: if_splits)
  from suggestions_are_source_words [OF h, of "''chat''" 5 "[phonex, soundex2]"] toyTable_get
  have "set [''Chat'', ''shat''] \<subseteq> trim toyPlatform ` set toyWords" by blast
  with toy_builtFrom toyTable_get show ?thesis by blast
qed


end
